theory Spec2Isabelle
  imports Complex_Main
begin

section \<open>LTWeather.cpp: fetching real weather from aviationweather.gov\<close>

text \<open>
  A shallow embedding of \<^verbatim>\<open>Src/LTWeather.cpp\<close>: the tag scanner \<^verbatim>\<open>GetXMLValue\<close>, the
  response interpreter \<^verbatim>\<open>WeatherProcessResponse\<close>, the CURL callback \<^verbatim>\<open>WeatherFetchCB\<close>,
  the worker \<^verbatim>\<open>WeatherFetch\<close> and the entry point \<^verbatim>\<open>WeatherUpdate\<close>.

  \<^item> \<^verbatim>\<open>std::string\<close> is \<open>string\<close> (a list of 8-bit characters), a \<^verbatim>\<open>size_type\<close> cursor is a
    \<open>nat\<close> and \<^verbatim>\<open>npos\<close> is \<open>None\<close>.
  \<^item> The binary32 values that \<^verbatim>\<open>std::stof\<close> yields are never inspected by the code, only
    scaled and stored; their type is a parameter \<open>'f\<close>. The library and configuration the code calls
    (\<^verbatim>\<open>std::stof\<close>, the product with \<^verbatim>\<open>HPA_per_INCH\<close>, \<^verbatim>\<open>NAN\<close>, the revocation
    classifier, \<^verbatim>\<open>curl_easy_init\<close>, the network) are the fields of an environment record.
  \<^item> Latitude, longitude and radius are only compared and passed on; they are \<open>real\<close>
    (NaN and the rounding of the \<^verbatim>\<open>(float)\<close> casts are not modelled).
  \<^item> Everything the code does beyond returning is a field of the state it threads:
    the weather held by \<^verbatim>\<open>dataRefs\<close>, the log, and the calls made.
  \<^item> An exception of \<^verbatim>\<open>std::stof\<close> is the \<open>Inl\<close> branch of a sum.
\<close>

subsection \<open>Strings\<close>

text \<open>
  \<open>find_first tag s\<close>: the least offset at which \<open>tag\<close> starts in \<open>s\<close>.
  \<^verbatim>\<open>std::string::find(tag, pos)\<close> is \<open>str_find r tag pos\<close>: the least position \<open>\<ge> pos\<close> at
  which \<open>tag\<close> occurs in \<open>r\<close>, or \<^verbatim>\<open>npos\<close>; a \<open>pos\<close> beyond the end gives \<^verbatim>\<open>npos\<close>.
\<close>

fun find_first :: "string \<Rightarrow> string \<Rightarrow> nat option" where
  "find_first tag [] = (if tag = [] then Some 0 else None)"
| "find_first tag (c # cs) =
     (if take (length tag) (c # cs) = tag then Some 0
      else map_option Suc (find_first tag cs))"

definition str_find :: "string \<Rightarrow> string \<Rightarrow> nat \<Rightarrow> nat option" where
  "str_find r tag pos =
     (if length r < pos then None
      else map_option (\<lambda>i. pos + i) (find_first tag (drop pos r)))"

text \<open>\<^verbatim>\<open>r.substr(a, n)\<close> for \<open>a \<le> length r\<close> (the only way the code calls it).\<close>

definition substr :: "string \<Rightarrow> nat \<Rightarrow> nat \<Rightarrow> string" where
  "substr r a n = take n (drop a r)"

text \<open>
  \<^verbatim>\<open>s.c_str()\<close>, or a \<^verbatim>\<open>char\<close> buffer, read as a C string (by a \<^verbatim>\<open>%s\<close> format, or to build
  a \<^verbatim>\<open>std::string\<close>): the characters before the first NUL byte.
\<close>

definition c_str :: "string \<Rightarrow> string" where
  "c_str s = takeWhile (\<lambda>c. c \<noteq> CHR 0x00) s"

text \<open>Specification vocabulary: \<open>tag\<close> occurs in \<open>r\<close> at position \<open>i\<close>.\<close>

definition occurs_at :: "string \<Rightarrow> string \<Rightarrow> nat \<Rightarrow> bool" where
  "occurs_at r tag i \<longleftrightarrow> i + length tag \<le> length r \<and> take (length tag) (drop i r) = tag"

subsection \<open>GetXMLValue\<close>

text \<open>
  \<^verbatim>\<open>std::string GetXMLValue (const std::string& _r, const std::string& _tag, size_type& pos)\<close>.
  The cursor \<open>pos\<close> is passed by reference: the model returns the value and the new cursor.
  When the tag is not found the function returns before \<open>pos\<close> is assigned.
\<close>

definition GetXMLValue :: "string \<Rightarrow> string \<Rightarrow> nat \<Rightarrow> string \<times> nat" where
  "GetXMLValue r tag pos =
     (case str_find r tag pos of
        None \<Rightarrow> ([], pos)
      | Some p \<Rightarrow>
          (let startPos = p + length tag in
           case str_find r ''<'' startPos of
             Some pos' \<Rightarrow> (substr r startPos (pos' - startPos), pos')
           | None \<Rightarrow> ([], 0)))"

subsection \<open>State and environment\<close>

datatype stof_exn = invalid_argument | out_of_range

record 'f weather =
  w_hPa :: 'f
  w_lat :: 'f
  w_lon :: 'f
  w_stationId :: string
  w_METAR :: string

text \<open>
  One constructor per \<^verbatim>\<open>LOG_MSG\<close> call of the file, with the values it formats; a text is
  what the \<^verbatim>\<open>%s\<close> format reads of it.
\<close>

datatype log_msg =
    ERR_WEATHER_ERROR string
  | ERR_WEATHER_REQU int
  | WARN_NO_WEATHER real
  | ERR_CURL_EASY_INIT
  | ERR_CURL_DISABLE_REV_QU
  | ERR_CURL_NOVERCHECK nat string
  | ERR_FETCH_EXCEPTION stof_exn

text \<open>
  A request is what determines the URL of \<^verbatim>\<open>snprintf(url, ..., _radius_nm / 1.151f, _lon, _lat)\<close>
  (the number formatting is not modelled) and the handle's \<^verbatim>\<open>CURLSSLOPT_NO_REVOKE\<close> option.
\<close>

record request =
  req_radius_nm :: real
  req_lon :: real
  req_lat :: real
  req_no_revoke :: bool

text \<open>
  What one \<^verbatim>\<open>curl_easy_perform\<close> gives back: the \<^verbatim>\<open>CURLcode\<close>, the content of the error
  buffer \<^verbatim>\<open>curl_errtxt\<close> (read as a C string wherever the code uses it), the HTTP response code, and the pieces of data handed to the write callback.
\<close>

record response =
  cc :: nat
  errtxt :: string
  httpResponse :: int
  chunks :: "string list"

record 'f world =
  weather :: "'f weather"
  setWeatherCalls :: nat
  logged :: "log_msg list"
  performed :: "request list"
  processed :: "string list"

text \<open>
  \<open>weather\<close> is what \<^verbatim>\<open>dataRefs\<close> holds (the shared sink), \<open>setWeatherCalls\<close> counts the calls
  of \<^verbatim>\<open>dataRefs.SetWeather\<close>, \<open>logged\<close> is the log, \<open>performed\<close> the requests given to
  \<^verbatim>\<open>curl_easy_perform\<close> and \<open>processed\<close> the buffers given to \<^verbatim>\<open>WeatherProcessResponse\<close>, each
  oldest first.
\<close>

record 'f env =
  stof :: "string \<Rightarrow> stof_exn + 'f"
  to_hPa :: "'f \<Rightarrow> 'f"
  NAN :: 'f
  IsRevocationError :: "string \<Rightarrow> bool"
  curl_easy_init_ok :: bool
  network :: "nat \<Rightarrow> request \<Rightarrow> response"

text \<open>
  \<open>stof\<close> is \<^verbatim>\<open>std::stof\<close> (\<open>Inl\<close>: the exception it throws), \<open>to_hPa x\<close> is
  \<^verbatim>\<open>x * (float)HPA_per_INCH\<close>, \<open>IsRevocationError\<close> is \<^verbatim>\<open>LTOnlineChannel::IsRevocationError\<close>,
  \<open>curl_easy_init_ok\<close> says whether \<^verbatim>\<open>curl_easy_init\<close> returns a handle, and \<open>network n req\<close>
  is the answer to the \<open>n\<close>-th \<^verbatim>\<open>curl_easy_perform\<close> of a fetch (counted from 0) issued for
  \<open>req\<close>.
\<close>

definition CURLE_OK :: nat where
  "CURLE_OK = 0"

text \<open>Modelled from the spec: the constant \<^verbatim>\<open>HTTP_OK\<close> (a header outside the sources), the
  spec's "HTTP 200".\<close>

definition HTTP_OK :: int where
  "HTTP_OK = 200"

definition MAX_WEATHER_RADIUS_NM :: real where
  "MAX_WEATHER_RADIUS_NM = 100"

text \<open>
  Modelled from the spec: the macro \<^verbatim>\<open>LOG_MSG\<close> and \<^verbatim>\<open>DataRefs::SetWeather\<close> are declared
  outside the sources. Of the first the spec says that failures are logged with their
  context; the second is its "sink-write operation accepting (pressureHpa, lat, lon,
  stationId, rawText)". The log is a list that grows; the sink keeps the values of the
  last write.
\<close>

definition LOG_MSG :: "log_msg \<Rightarrow> 'f world \<Rightarrow> 'f world" where
  "LOG_MSG m w = w\<lparr>logged := logged w @ [m]\<rparr>"

definition SetWeather :: "'f \<Rightarrow> 'f \<Rightarrow> 'f \<Rightarrow> string \<Rightarrow> string \<Rightarrow> 'f world \<Rightarrow> 'f world" where
  "SetWeather hPa lat lon stationId METAR w =
     w\<lparr>weather := \<lparr>w_hPa = hPa, w_lat = lat, w_lon = lon,
                    w_stationId = stationId, w_METAR = METAR\<rparr>,
       setWeatherCalls := Suc (setWeatherCalls w)\<rparr>"

subsection \<open>WeatherProcessResponse\<close>

text \<open>
  \<open>stof_opt env val dflt\<close> is \<^verbatim>\<open>if (!val.empty()) x = std::stof(val);\<close> for a variable
  holding \<open>dflt\<close>.
\<close>

definition stof_opt :: "'f env \<Rightarrow> string \<Rightarrow> 'f \<Rightarrow> stof_exn + 'f" where
  "stof_opt env val dflt = (if val \<noteq> [] then stof env val else Inr dflt)"

text \<open>
  \<^verbatim>\<open>bool WeatherProcessResponse (const std::string& _r)\<close>. The result is \<open>Inr\<close> the returned
  \<^verbatim>\<open>bool\<close>, or \<open>Inl\<close> the exception that leaves the function; the state comes back in both
  cases.
\<close>

definition WeatherProcessResponse ::
  "'f env \<Rightarrow> string \<Rightarrow> 'f world \<Rightarrow> (stof_exn + bool) \<times> 'f world" where
  "WeatherProcessResponse env r w0 =
     (let w = w0\<lparr>processed := processed w0 @ [r]\<rparr>;
          (val, pos) = GetXMLValue r ''<error>'' 0
      in if val \<noteq> [] then (Inr False, LOG_MSG (ERR_WEATHER_ERROR (c_str val)) w)
         else
           let (val, pos) = GetXMLValue r ''<altim_in_hg>'' pos
           in if val \<noteq> [] then
                (case stof env val of
                   Inl e \<Rightarrow> (Inl e, w)
                 | Inr x \<Rightarrow>
                     let hPa = to_hPa env x;
                         pos = 0;
                         (METAR, pos) = GetXMLValue r ''<raw_text>'' pos;
                         (stationId, pos) = GetXMLValue r ''<station_id>'' pos;
                         (val, pos) = GetXMLValue r ''<latitude>'' pos
                     in (case stof_opt env val (NAN env) of
                           Inl e \<Rightarrow> (Inl e, w)
                         | Inr lat \<Rightarrow>
                             let (val, pos) = GetXMLValue r ''<longitude>'' pos
                             in (case stof_opt env val (NAN env) of
                                   Inl e \<Rightarrow> (Inl e, w)
                                 | Inr lon \<Rightarrow>
                                     (Inr True, SetWeather hPa lat lon stationId METAR w))))
              else (Inr False, w))"

text \<open>
  Specification vocabulary: the four texts that lines 139 to 148 extract, one after the
  other with the cursor they share, after the pressure has been found.
\<close>

definition station_fields :: "string \<Rightarrow> string \<times> string \<times> string \<times> string" where
  "station_fields r =
     (let pos = 0;
          (METAR, pos) = GetXMLValue r ''<raw_text>'' pos;
          (stationId, pos) = GetXMLValue r ''<station_id>'' pos;
          (lat, pos) = GetXMLValue r ''<latitude>'' pos;
          (lon, pos) = GetXMLValue r ''<longitude>'' pos
      in (METAR, stationId, lat, lon))"

subsection \<open>WeatherFetch\<close>

text \<open>\<^verbatim>\<open>WeatherFetchCB\<close>: \<^verbatim>\<open>readBuf.append(ptr, nmemb)\<close>.\<close>

definition WeatherFetchCB :: "string \<Rightarrow> string \<Rightarrow> string" where
  "WeatherFetchCB readBuf chunk = readBuf @ chunk"

text \<open>The variables of \<^verbatim>\<open>WeatherFetch\<close> that live across the passes of its loop.\<close>

record locals =
  radius_nm :: real
  readBuf :: string
  bRet :: bool
  no_revoke :: bool
  nperf :: nat

text \<open>
  \<^verbatim>\<open>curl_easy_perform\<close> with the options the loop sets: the request is recorded, the network
  answers, and the write callback appends each piece of data to \<open>readBuf\<close>.
\<close>

definition curl_easy_perform ::
  "'f env \<Rightarrow> request \<Rightarrow> locals \<Rightarrow> 'f world \<Rightarrow> response \<times> locals \<times> 'f world" where
  "curl_easy_perform env req l w =
     (let resp = network env (nperf l) req
      in (resp,
          l\<lparr>readBuf := foldl WeatherFetchCB (readBuf l) (chunks resp), nperf := Suc (nperf l)\<rparr>,
          w\<lparr>performed := performed w @ [req]\<rparr>))"

text \<open>
  Lines 210 to 226, the HTTP GET: \<^verbatim>\<open>curl_easy_perform\<close>; when it fails with what
  \<^verbatim>\<open>IsRevocationError\<close> takes for a revocation error, \<^verbatim>\<open>CURLSSLOPT_NO_REVOKE\<close> is set on the
  handle, a warning is logged and the request is performed once more; a failure that
  remains is logged.
\<close>

definition perform_request ::
  "'f env \<Rightarrow> request \<Rightarrow> locals \<Rightarrow> 'f world \<Rightarrow> response \<times> locals \<times> 'f world" where
  "perform_request env req l0 w0 =
     (let (resp, l, w) = curl_easy_perform env req l0 w0
      in if cc resp \<noteq> CURLE_OK then
           let (resp, l, w) =
                 (if IsRevocationError env (c_str (errtxt resp)) then
                    curl_easy_perform env (req\<lparr>req_no_revoke := True\<rparr>)
                      (l\<lparr>no_revoke := True\<rparr>) (LOG_MSG ERR_CURL_DISABLE_REV_QU w)
                  else (resp, l, w))
           in (resp, l,
               if cc resp \<noteq> CURLE_OK
               then LOG_MSG (ERR_CURL_NOVERCHECK (cc resp) (c_str (errtxt resp))) w else w)
         else (resp, l, w))"

text \<open>
  Lines 228 to 250, what the pass does with the answer. The result is \<open>Inr bRepeat\<close>, or
  \<open>Inl\<close> the exception thrown by \<^verbatim>\<open>WeatherProcessResponse\<close>.
\<close>

definition evaluate_response ::
  "'f env \<Rightarrow> response \<Rightarrow> locals \<Rightarrow> 'f world \<Rightarrow> (stof_exn + bool) \<times> locals \<times> 'f world" where
  "evaluate_response env resp l w =
     (if cc resp = CURLE_OK then
        (if httpResponse resp \<noteq> HTTP_OK
         then (Inr False, l, LOG_MSG (ERR_WEATHER_REQU (httpResponse resp)) w)
         else
           (case WeatherProcessResponse env (readBuf l) w of
              (Inl e, w) \<Rightarrow> (Inl e, l, w)
            | (Inr b, w) \<Rightarrow>
                let l = l\<lparr>bRet := b\<rparr>
                in if \<not> bRet l then
                     let w = LOG_MSG (WARN_NO_WEATHER (radius_nm l)) w
                     in if radius_nm l < MAX_WEATHER_RADIUS_NM
                        then (Inr True, l\<lparr>radius_nm := MAX_WEATHER_RADIUS_NM\<rparr>, w)
                        else (Inr False, l, w)
                   else (Inr False, l, w)))
      else (Inr False, l, w))"

text \<open>One pass of the \<^verbatim>\<open>do { ... } while (bRepeat)\<close> loop.\<close>

definition WeatherFetch_body ::
  "'f env \<Rightarrow> real \<Rightarrow> real \<Rightarrow> locals \<Rightarrow> 'f world \<Rightarrow> (stof_exn + bool) \<times> locals \<times> 'f world" where
  "WeatherFetch_body env lat lon l0 w0 =
     (let req = \<lparr>req_radius_nm = radius_nm l0, req_lon = lon, req_lat = lat,
                 req_no_revoke = no_revoke l0\<rparr>;
          (resp, l, w) = perform_request env req l0 w0
      in evaluate_response env resp l w)"

lemma perform_request_radius:
  "perform_request env req l w = (resp, l', w') \<Longrightarrow> radius_nm l' = radius_nm l"
  by (auto simp: perform_request_def curl_easy_perform_def Let_def
           split: if_splits prod.splits)

lemma evaluate_response_repeat:
  "evaluate_response env resp l w = (Inr True, l', w') \<Longrightarrow>
     radius_nm l < MAX_WEATHER_RADIUS_NM \<and> radius_nm l' = MAX_WEATHER_RADIUS_NM"
  by (auto simp: evaluate_response_def Let_def split: if_splits prod.splits sum.splits)

lemma WeatherFetch_body_repeat:
  assumes "WeatherFetch_body env lat lon l w = (Inr True, l', w')"
  shows "radius_nm l < MAX_WEATHER_RADIUS_NM \<and> radius_nm l' = MAX_WEATHER_RADIUS_NM"
  using assms
  by (auto simp: WeatherFetch_body_def Let_def split: prod.splits
           dest!: evaluate_response_repeat perform_request_radius)

text \<open>The loop: another pass while \<open>bRepeat\<close>.\<close>

function WeatherFetch_loop ::
  "'f env \<Rightarrow> real \<Rightarrow> real \<Rightarrow> locals \<Rightarrow> 'f world \<Rightarrow> (stof_exn + unit) \<times> locals \<times> 'f world" where
  "WeatherFetch_loop env lat lon l w =
     (case WeatherFetch_body env lat lon l w of
        (Inl e, l', w') \<Rightarrow> (Inl e, l', w')
      | (Inr bRepeat, l', w') \<Rightarrow>
          if bRepeat then WeatherFetch_loop env lat lon l' w' else (Inr (), l', w'))"
  by pat_completeness auto
termination
  by (relation "measure (\<lambda>(env, lat, lon, l, w).
                  if radius_nm l < MAX_WEATHER_RADIUS_NM then 1 else 0)")
     (auto dest!: WeatherFetch_body_repeat [OF sym])

declare WeatherFetch_loop.simps [simp del]

text \<open>
  \<^verbatim>\<open>bool WeatherFetch (float _lat, float _lon, float _radius_nm)\<close>: the \<^verbatim>\<open>try\<close> block, and the
  two handlers, which both log and fall through to \<^verbatim>\<open>return bRet\<close>.
\<close>

definition WeatherFetch ::
  "'f env \<Rightarrow> real \<Rightarrow> real \<Rightarrow> real \<Rightarrow> 'f world \<Rightarrow> bool \<times> 'f world" where
  "WeatherFetch env lat lon radius w =
     (if \<not> curl_easy_init_ok env then (False, LOG_MSG ERR_CURL_EASY_INIT w)
      else
        (case WeatherFetch_loop env lat lon
                \<lparr>radius_nm = radius, readBuf = [], bRet = False, no_revoke = False, nperf = 0\<rparr> w of
           (Inl e, l, w') \<Rightarrow> (bRet l, LOG_MSG (ERR_FETCH_EXCEPTION e) w')
         | (Inr u, l, w') \<Rightarrow> (bRet l, w')))"

subsection \<open>Vocabulary for the requests of a fetch\<close>

text \<open>
  What the request asks for: the radius, longitude and latitude that \<^verbatim>\<open>snprintf\<close> puts
  into the URL. A request that is performed again after a revocation error has the same
  URL.
\<close>

definition req_values :: "request \<Rightarrow> real \<times> real \<times> real" where
  "req_values req = (req_radius_nm req, req_lon req, req_lat req)"

text \<open>
  A request issued when \<open>n\<close> calls of \<^verbatim>\<open>curl_easy_perform\<close> have been made in the fetch:
  whether it is performed a second time (lines 212 to 221), the calls of
  \<^verbatim>\<open>curl_easy_perform\<close> it takes, the answer it ends with, and the data the write callback
  receives on the way.
\<close>

definition revocation_retry :: "'f env \<Rightarrow> nat \<Rightarrow> request \<Rightarrow> bool" where
  "revocation_retry env n req \<longleftrightarrow>
     cc (network env n req) \<noteq> CURLE_OK \<and>
     IsRevocationError env (c_str (errtxt (network env n req)))"

definition performs :: "'f env \<Rightarrow> nat \<Rightarrow> request \<Rightarrow> request list" where
  "performs env n req =
     (if revocation_retry env n req then [req, req\<lparr>req_no_revoke := True\<rparr>] else [req])"

definition answer :: "'f env \<Rightarrow> nat \<Rightarrow> request \<Rightarrow> response" where
  "answer env n req =
     (if revocation_retry env n req then network env (Suc n) (req\<lparr>req_no_revoke := True\<rparr>)
      else network env n req)"

definition received :: "'f env \<Rightarrow> nat \<Rightarrow> request \<Rightarrow> string" where
  "received env n req =
     concat (chunks (network env n req)) @
     (if revocation_retry env n req
      then concat (chunks (network env (Suc n) (req\<lparr>req_no_revoke := True\<rparr>))) else [])"

text \<open>The answer is an HTTP 200: \<^verbatim>\<open>cc == CURLE_OK\<close> and \<^verbatim>\<open>httpResponse == HTTP_OK\<close>.\<close>

definition http_200 :: "response \<Rightarrow> bool" where
  "http_200 resp \<longleftrightarrow> cc resp = CURLE_OK \<and> httpResponse resp = HTTP_OK"

subsection \<open>WeatherUpdate\<close>

text \<open>
  \<^verbatim>\<open>static std::future<bool> futWeather\<close>: \<open>None\<close> while it has no shared state
  (\<^verbatim>\<open>valid()\<close> is false); otherwise the task it was launched for and what
  \<^verbatim>\<open>wait_for(std::chrono::seconds(0))\<close> reports at the moment of the call. \<open>launched\<close> lists
  the workers started by \<^verbatim>\<open>std::async\<close>, oldest first.
\<close>

datatype future_status = ready | timeout | deferred

text \<open>
  Modelled from the spec: \<^verbatim>\<open>positionTy\<close> is declared outside the sources; the code reads
  \<^verbatim>\<open>pos.lat()\<close> and \<^verbatim>\<open>pos.lon()\<close> of it, the spec's "current simulated position".
\<close>

record positionTy =
  pos_lat :: real
  pos_lon :: real

record task =
  t_lat :: real
  t_lon :: real
  t_radius_nm :: real

record future =
  fut_task :: task
  fut_status :: future_status

record coordinator =
  futWeather :: "future option"
  launched :: "task list"

text \<open>
  \<^verbatim>\<open>futWeather.valid() && futWeather.wait_for(std::chrono::seconds(0)) != std::future_status::ready\<close>
\<close>

definition in_flight :: "coordinator \<Rightarrow> bool" where
  "in_flight st =
     (case futWeather st of None \<Rightarrow> False | Some f \<Rightarrow> fut_status f \<noteq> ready)"

text \<open>
  \<^verbatim>\<open>bool WeatherUpdate (const positionTy& pos, float radius_nm)\<close>. The new future is not
  ready when \<^verbatim>\<open>std::async\<close> returns it; the worker it stands for is \<open>WeatherFetch\<close> on the
  task's values.
\<close>

definition WeatherUpdate :: "positionTy \<Rightarrow> real \<Rightarrow> coordinator \<Rightarrow> bool \<times> coordinator" where
  "WeatherUpdate pos radius st =
     (if pos_lat pos \<ge> 80 then (False, st)
      else if in_flight st then (False, st)
      else
        (let t = \<lparr>t_lat = pos_lat pos, t_lon = pos_lon pos, t_radius_nm = radius\<rparr>
         in (True, st\<lparr>futWeather := Some \<lparr>fut_task = t, fut_status = timeout\<rparr>,
                      launched := launched st @ [t]\<rparr>)))"

subsection \<open>A concrete environment\<close>

text \<open>
  An environment on which the model can be run. Its binary32 values are terms: \<open>Stof s\<close> is
  the value \<^verbatim>\<open>std::stof\<close> returns for the text \<open>s\<close>, \<open>Times_HPA_per_INCH x\<close> the product
  \<^verbatim>\<open>x * (float)HPA_per_INCH\<close>, \<open>FNAN\<close> the macro \<^verbatim>\<open>NAN\<close>.

  \<open>stof_syntax\<close> takes from \<^verbatim>\<open>std::stof\<close> (that is \<^verbatim>\<open>strtof\<close>) the decision whether a
  conversion can be performed: after white space and an optional sign the text starts
  with a digit, with a point and a digit, or with \<^verbatim>\<open>inf\<close> or \<^verbatim>\<open>nan\<close> in either case;
  otherwise \<^verbatim>\<open>std::invalid_argument\<close> is thrown. The range check of \<^verbatim>\<open>std::stof\<close> needs the
  binary32 value: \<open>stof_syntax\<close> never gives \<open>out_of_range\<close>.
\<close>

datatype float_term = FNAN | Stof string | Times_HPA_per_INCH float_term

definition isspace :: "char \<Rightarrow> bool" where
  "isspace c \<longleftrightarrow> c \<in> set [CHR '' '', CHR 0x09, CHR 0x0A, CHR 0x0B, CHR 0x0C, CHR 0x0D]"

definition isdigit :: "char \<Rightarrow> bool" where
  "isdigit c \<longleftrightarrow> c \<in> set ''0123456789''"

fun skip_sign :: "string \<Rightarrow> string" where
  "skip_sign [] = []"
| "skip_sign (c # cs) = (if c = CHR ''+'' \<or> c = CHR ''-'' then cs else c # cs)"

fun starts_number :: "string \<Rightarrow> bool" where
  "starts_number [] = False"
| "starts_number [c] = isdigit c"
| "starts_number [c, d] = (isdigit c \<or> (c = CHR ''.'' \<and> isdigit d))"
| "starts_number (c # d # e # cs) =
     (isdigit c \<or> (c = CHR ''.'' \<and> isdigit d)
      \<or> (c \<in> set ''iI'' \<and> d \<in> set ''nN'' \<and> e \<in> set ''fF'')
      \<or> (c \<in> set ''nN'' \<and> d \<in> set ''aA'' \<and> e \<in> set ''nN''))"

definition stof_syntax :: "string \<Rightarrow> stof_exn + float_term" where
  "stof_syntax s =
     (if starts_number (skip_sign (dropWhile isspace s)) then Inr (Stof s)
      else Inl invalid_argument)"

text \<open>
  Modelled from the spec: \<^verbatim>\<open>LTOnlineChannel::IsRevocationError\<close> is not among the sources;
  the spec has it as "a classifier that maps a transport error's text to: is this the
  revocation-check sub-class". This one takes the texts that mention the word.
\<close>

definition mentions_revocation :: "string \<Rightarrow> bool" where
  "mentions_revocation txt \<longleftrightarrow> str_find txt ''revocation'' 0 \<noteq> None"

text \<open>
  A network that answers the \<open>n\<close>-th \<^verbatim>\<open>curl_easy_perform\<close> with the \<open>n\<close>-th response of a
  script, and with \<^verbatim>\<open>CURLE_COULDNT_CONNECT\<close> once the script is used up.
\<close>

definition scripted :: "response list \<Rightarrow> nat \<Rightarrow> request \<Rightarrow> response" where
  "scripted script n req =
     (if n < length script then script ! n
      else \<lparr>cc = 7, errtxt = ''Could not connect to server'', httpResponse = 0, chunks = []\<rparr>)"

definition http_response :: "int \<Rightarrow> string \<Rightarrow> response" where
  "http_response code body = \<lparr>cc = CURLE_OK, errtxt = [], httpResponse = code, chunks = [body]\<rparr>"

definition transport_error :: "nat \<Rightarrow> string \<Rightarrow> response" where
  "transport_error code txt = \<lparr>cc = code, errtxt = txt, httpResponse = 0, chunks = []\<rparr>"

definition sample_env :: "response list \<Rightarrow> float_term env" where
  "sample_env script =
     \<lparr>stof = stof_syntax, to_hPa = Times_HPA_per_INCH, NAN = FNAN,
      IsRevocationError = mentions_revocation, curl_easy_init_ok = True,
      network = scripted script\<rparr>"

definition world0 :: "float_term world" where
  "world0 =
     \<lparr>weather = \<lparr>w_hPa = FNAN, w_lat = FNAN, w_lon = FNAN, w_stationId = [], w_METAR = []\<rparr>,
      setWeatherCalls = 0, logged = [], performed = [], processed = []\<rparr>"

section \<open>Properties\<close>

subsection \<open>The tag scanner\<close>

text \<open>\<open>find_first\<close> and \<open>str_find\<close> find the first occurrence, and fail only when there is none.\<close>

lemma occurs_at_Nil: "occurs_at [] tag i \<longleftrightarrow> i = 0 \<and> tag = []"
  by (auto simp: occurs_at_def)

lemma occurs_at_Cons_0:
  "occurs_at (c # cs) tag 0 \<longleftrightarrow> take (length tag) (c # cs) = tag"
proof -
  have "length tag \<le> Suc (length cs)" if "take (length tag) (c # cs) = tag"
  proof -
    have "length (take (length tag) (c # cs)) \<le> length (c # cs)"
      by (simp only: length_take min.cobounded2)
    with that show ?thesis by simp
  qed
  then show ?thesis by (auto simp: occurs_at_def)
qed

lemma occurs_at_Cons_Suc: "occurs_at (c # cs) tag (Suc i) \<longleftrightarrow> occurs_at cs tag i"
  by (simp add: occurs_at_def)

lemma find_first_None_iff: "find_first tag s = None \<longleftrightarrow> (\<forall>i. \<not> occurs_at s tag i)"
proof (induction s)
  case Nil
  show ?case by (simp add: occurs_at_Nil)
next
  case (Cons c cs)
  show ?case
  proof (cases "take (length tag) (c # cs) = tag")
    case True
    then have "occurs_at (c # cs) tag 0" by (simp only: occurs_at_Cons_0)
    with True show ?thesis by auto
  next
    case False
    then have no0: "\<not> occurs_at (c # cs) tag 0" by (simp only: occurs_at_Cons_0) simp
    have "(\<forall>i. \<not> occurs_at (c # cs) tag i) \<longleftrightarrow> (\<forall>i. \<not> occurs_at cs tag i)"
    proof
      assume h: "\<forall>i. \<not> occurs_at (c # cs) tag i"
      show "\<forall>i. \<not> occurs_at cs tag i"
      proof
        fix i from h have "\<not> occurs_at (c # cs) tag (Suc i)" by blast
        then show "\<not> occurs_at cs tag i" by (simp only: occurs_at_Cons_Suc) simp
      qed
    next
      assume h: "\<forall>i. \<not> occurs_at cs tag i"
      show "\<forall>i. \<not> occurs_at (c # cs) tag i"
      proof
        fix i show "\<not> occurs_at (c # cs) tag i"
          using no0 h by (cases i) (simp_all add: occurs_at_Cons_Suc)
      qed
    qed
    with False Cons.IH show ?thesis by simp
  qed
qed

lemma find_first_Some_iff:
  "find_first tag s = Some p \<longleftrightarrow> occurs_at s tag p \<and> (\<forall>j<p. \<not> occurs_at s tag j)"
proof (induction s arbitrary: p)
  case Nil
  show ?case by (auto simp: occurs_at_Nil)
next
  case (Cons c cs)
  show ?case
  proof (cases "take (length tag) (c # cs) = tag")
    case True
    then have o0: "occurs_at (c # cs) tag 0" by (simp only: occurs_at_Cons_0)
    show ?thesis
    proof (cases p)
      case 0 with True o0 show ?thesis by simp
    next
      case (Suc q) with True o0 show ?thesis by auto
    qed
  next
    case False
    then have no0: "\<not> occurs_at (c # cs) tag 0" by (simp only: occurs_at_Cons_0) simp
    show ?thesis
    proof (cases p)
      case 0 with False no0 show ?thesis by simp
    next
      case (Suc q)
      have "(\<forall>j<Suc q. \<not> occurs_at (c # cs) tag j) \<longleftrightarrow> (\<forall>j<q. \<not> occurs_at cs tag j)"
      proof
        assume h: "\<forall>j<Suc q. \<not> occurs_at (c # cs) tag j"
        show "\<forall>j<q. \<not> occurs_at cs tag j"
        proof (intro allI impI)
          fix j assume "j < q"
          with h have "\<not> occurs_at (c # cs) tag (Suc j)" by simp
          then show "\<not> occurs_at cs tag j" by (simp add: occurs_at_Cons_Suc)
        qed
      next
        assume h: "\<forall>j<q. \<not> occurs_at cs tag j"
        show "\<forall>j<Suc q. \<not> occurs_at (c # cs) tag j"
        proof (intro allI impI)
          fix j assume "j < Suc q"
          then show "\<not> occurs_at (c # cs) tag j"
            using no0 h by (cases j) (simp_all add: occurs_at_Cons_Suc)
        qed
      qed
      with False Suc Cons.IH [of q] show ?thesis
        by (simp add: occurs_at_Cons_Suc)
    qed
  qed
qed

lemma occurs_at_drop:
  "pos \<le> length r \<Longrightarrow> occurs_at (drop pos r) tag i \<longleftrightarrow> occurs_at r tag (pos + i)"
  by (auto simp: occurs_at_def add.commute)

lemma occurs_at_le_length: "occurs_at r tag i \<Longrightarrow> i \<le> length r"
  by (simp add: occurs_at_def)

lemma str_find_None_iff:
  "str_find r tag pos = None \<longleftrightarrow> (\<forall>i\<ge>pos. \<not> occurs_at r tag i)"
proof (cases "length r < pos")
  case True
  then have "\<not> occurs_at r tag i" if "pos \<le> i" for i
    using that occurs_at_le_length [of r tag i] by auto
  with True show ?thesis by (simp add: str_find_def)
next
  case False
  then have le: "pos \<le> length r" by simp
  have "(\<forall>i. \<not> occurs_at r tag (pos + i)) \<longleftrightarrow> (\<forall>i\<ge>pos. \<not> occurs_at r tag i)"
  proof
    assume h: "\<forall>i. \<not> occurs_at r tag (pos + i)"
    show "\<forall>i\<ge>pos. \<not> occurs_at r tag i"
    proof (intro allI impI)
      fix i assume "pos \<le> i"
      then have "i = pos + (i - pos)" by simp
      with h show "\<not> occurs_at r tag i" by metis
    qed
  qed simp
  with False le show ?thesis
    by (simp add: str_find_def find_first_None_iff occurs_at_drop)
qed

lemma str_find_Some_iff:
  "str_find r tag pos = Some p \<longleftrightarrow>
     pos \<le> p \<and> occurs_at r tag p \<and> (\<forall>j. pos \<le> j \<and> j < p \<longrightarrow> \<not> occurs_at r tag j)"
proof (cases "length r < pos")
  case True
  then have "\<not> occurs_at r tag p" if "pos \<le> p"
    using that occurs_at_le_length [of r tag p] by auto
  with True show ?thesis by (auto simp: str_find_def)
next
  case False
  then have le: "pos \<le> length r" by simp
  have *: "(\<forall>j<i. \<not> occurs_at r tag (pos + j)) \<longleftrightarrow>
           (\<forall>j. pos \<le> j \<and> j < pos + i \<longrightarrow> \<not> occurs_at r tag j)" for i
  proof
    assume h: "\<forall>j<i. \<not> occurs_at r tag (pos + j)"
    show "\<forall>j. pos \<le> j \<and> j < pos + i \<longrightarrow> \<not> occurs_at r tag j"
    proof (intro allI impI)
      fix j assume "pos \<le> j \<and> j < pos + i"
      then have "j = pos + (j - pos)" "j - pos < i" by auto
      with h show "\<not> occurs_at r tag j" by metis
    qed
  qed simp
  show ?thesis
  proof
    assume "str_find r tag pos = Some p"
    with False obtain i where i: "find_first tag (drop pos r) = Some i" and p: "p = pos + i"
      by (auto simp: str_find_def)
    from i le have "occurs_at r tag (pos + i)" "\<forall>j<i. \<not> occurs_at r tag (pos + j)"
      by (simp_all add: find_first_Some_iff occurs_at_drop)
    with p * [of i] show "pos \<le> p \<and> occurs_at r tag p \<and>
        (\<forall>j. pos \<le> j \<and> j < p \<longrightarrow> \<not> occurs_at r tag j)" by simp
  next
    assume h: "pos \<le> p \<and> occurs_at r tag p \<and>
        (\<forall>j. pos \<le> j \<and> j < p \<longrightarrow> \<not> occurs_at r tag j)"
    define i where "i = p - pos"
    with h have p: "p = pos + i" by simp
    with h * [of i] have "find_first tag (drop pos r) = Some i"
      using le by (simp add: find_first_Some_iff occurs_at_drop)
    with False p show "str_find r tag pos = Some p" by (simp add: str_find_def)
  qed
qed

lemma occurs_at_char: "occurs_at r [c] j \<longleftrightarrow> j < length r \<and> r ! j = c"
proof (cases "j < length r")
  case True
  then have "drop j r = r ! j # drop (Suc j) r" by (simp add: Cons_nth_drop_Suc)
  with True show ?thesis by (auto simp: occurs_at_def)
next
  case False
  then show ?thesis by (auto simp: occurs_at_def)
qed

lemma occurs_at_mid: "occurs_at (pre @ tag @ rest) tag (length pre)"
  by (simp add: occurs_at_def)

lemma occurs_at_append:
  "occurs_at (r @ d) tag i \<Longrightarrow> i + length tag \<le> length r \<Longrightarrow> occurs_at r tag i"
  by (simp add: occurs_at_def)

text \<open>
  A tag that is found, with its text up to the next \<^verbatim>\<open><\<close>: the scanner returns the text and
  leaves the cursor on that \<^verbatim>\<open><\<close>.
\<close>

lemma GetXMLValue_found:
  assumes r: "r = pre @ tag @ X @ CHR ''<'' # post"
    and pos: "pos \<le> length pre"
    and first: "\<forall>j. pos \<le> j \<and> j < length pre \<longrightarrow> \<not> occurs_at r tag j"
    and X: "CHR ''<'' \<notin> set X"
  shows "GetXMLValue r tag pos = (X, length pre + length tag + length X)"
proof -
  have "occurs_at r tag (length pre)"
    unfolding r by (rule occurs_at_mid)
  with pos first have f1: "str_find r tag pos = Some (length pre)"
    by (simp add: str_find_Some_iff)
  let ?s = "length pre + length tag"
  let ?q = "?s + length X"
  have rs: "r = (pre @ tag) @ X @ CHR ''<'' # post" by (simp add: r)
  have q: "occurs_at r ''<'' ?q"
    by (simp add: r occurs_at_char nth_append)
  have "\<not> occurs_at r ''<'' j" if "?s \<le> j \<and> j < ?q" for j
  proof -
    from that have "r ! j = X ! (j - ?s)" "j - ?s < length X"
      by (auto simp: rs nth_append simp del: append_assoc)
    with X show ?thesis
      by (metis nth_mem occurs_at_char)
  qed
  with q have f2: "str_find r ''<'' ?s = Some ?q"
    by (simp add: str_find_Some_iff)
  have "substr r ?s (?q - ?s) = X"
    by (simp add: substr_def rs del: append_assoc)
  with f1 f2 show ?thesis
    by (simp add: GetXMLValue_def)
qed

text \<open>
  C6 (as the code has it). For every buffer, tag and cursor such that the tag does not
  occur in the buffer at or after the cursor, \<^verbatim>\<open>GetXMLValue\<close> returns the empty string
  and leaves the cursor where it was: the function returns before it assigns \<open>pos\<close>.
\<close>

theorem GetXMLValue_tag_absent:
  assumes "\<forall>i\<ge>pos. \<not> occurs_at r tag i"
  shows "GetXMLValue r tag pos = ([], pos)"
  using assms by (simp add: GetXMLValue_def str_find_None_iff [symmetric])

theorem GetXMLValue_tag_absent_witness:
  "GetXMLValue ''<a>1</a>'' ''<b>'' 3 = ([], 3)"
proof -
  have "str_find ''<a>1</a>'' ''<b>'' 3 = None"
    by (simp add: str_find_def)
  then have "\<forall>i\<ge>3. \<not> occurs_at ''<a>1</a>'' ''<b>'' i"
    by (simp only: str_find_None_iff)
  then show ?thesis
    by (rule GetXMLValue_tag_absent)
qed

text \<open>
  C6 as stated asks for the cursor to be reset to 0. In \<^verbatim>\<open><a>1</a>\<close> the tag \<^verbatim>\<open><b>\<close> does
  not occur; scanning from cursor 3 leaves the cursor at 3.
\<close>

theorem GetXMLValue_tag_absent_no_reset:
  "str_find ''<a>1</a>'' ''<b>'' 3 = None \<and>
   GetXMLValue ''<a>1</a>'' ''<b>'' 3 = ([], 3) \<and>
   snd (GetXMLValue ''<a>1</a>'' ''<b>'' 3) \<noteq> 0"
  by (simp add: GetXMLValue_def str_find_def)

subsection \<open>The interpreter\<close>

text \<open>
  The definitions that evaluate a concrete environment, and those that run the code.
\<close>

lemmas sample_defs = sample_env_def scripted_def http_response_def transport_error_def
  world0_def stof_syntax_def mentions_revocation_def isspace_def isdigit_def

lemmas interpreter_defs = WeatherProcessResponse_def GetXMLValue_def str_find_def substr_def
  c_str_def stof_opt_def SetWeather_def LOG_MSG_def Let_def

text \<open>
  What \<^verbatim>\<open>WeatherProcessResponse\<close> does to the state: it notes the buffer, performs no
  request, and calls \<^verbatim>\<open>SetWeather\<close> exactly when it returns \<^verbatim>\<open>true\<close>. Its result does not
  depend on the state, and it logs nothing but the error it finds.
\<close>

lemma WeatherProcessResponse_effect:
  assumes "WeatherProcessResponse env r w = (res, w')"
  shows "processed w' = processed w @ [r] \<and> performed w' = performed w \<and>
         (res = Inr True \<longrightarrow> setWeatherCalls w' = Suc (setWeatherCalls w)) \<and>
         (res \<noteq> Inr True \<longrightarrow> weather w' = weather w \<and> setWeatherCalls w' = setWeatherCalls w)"
  using assms
  by (auto simp: WeatherProcessResponse_def LOG_MSG_def SetWeather_def Let_def
           split: prod.splits if_splits sum.splits)

lemma WeatherProcessResponse_snd:
  "processed (snd (WeatherProcessResponse env r w)) = processed w @ [r]"
  "performed (snd (WeatherProcessResponse env r w)) = performed w"
  using WeatherProcessResponse_effect [OF surjective_pairing, of env r w] by simp_all

lemma WeatherProcessResponse_fst:
  "fst (WeatherProcessResponse env r w) = fst (WeatherProcessResponse env r w0)"
  by (simp add: WeatherProcessResponse_def Let_def split: prod.splits sum.splits)

lemma WeatherProcessResponse_logged:
  "\<exists>m. logged (snd (WeatherProcessResponse env r w)) = logged w @ m"
  by (simp add: WeatherProcessResponse_def LOG_MSG_def SetWeather_def Let_def
           split: prod.splits sum.splits)

lemma WeatherProcessResponse_no_error_logged:
  assumes "GetXMLValue r ''<error>'' 0 = ([], p)"
  shows "logged (snd (WeatherProcessResponse env r w)) = logged w"
  using assms
  by (simp add: WeatherProcessResponse_def SetWeather_def Let_def split: prod.splits sum.splits)

text \<open>
  A first \<^verbatim>\<open><error>\<close> element with text in it decides the outcome, whatever is appended to
  the buffer.
\<close>

lemma WeatherProcessResponse_error:
  assumes "GetXMLValue r ''<error>'' 0 = (X, p)" and "X \<noteq> []"
  shows "WeatherProcessResponse env r w =
           (Inr False,
            LOG_MSG (ERR_WEATHER_ERROR (c_str X)) (w\<lparr>processed := processed w @ [r]\<rparr>))"
  using assms by (simp add: WeatherProcessResponse_def)

lemma GetXMLValue_error_append:
  assumes body: "r = pre @ ''<error>'' @ X @ CHR ''<'' # post"
    and first: "\<forall>i<length pre. \<not> occurs_at r ''<error>'' i"
    and X: "CHR ''<'' \<notin> set X"
  shows "GetXMLValue (r @ d) ''<error>'' 0 = (X, length pre + 7 + length X)"
proof -
  have "r @ d = pre @ ''<error>'' @ X @ CHR ''<'' # (post @ d)"
    by (simp add: body)
  moreover have "\<forall>j. 0 \<le> j \<and> j < length pre \<longrightarrow> \<not> occurs_at (r @ d) ''<error>'' j"
  proof (intro allI impI)
    fix j assume j: "0 \<le> j \<and> j < length pre"
    then have "j + length ''<error>'' \<le> length r" by (simp add: body)
    with first j show "\<not> occurs_at (r @ d) ''<error>'' j"
      using occurs_at_append by blast
  qed
  ultimately show ?thesis
    using GetXMLValue_found [of "r @ d" pre "''<error>''" X "post @ d" 0] X by simp
qed

lemma WeatherProcessResponse_error_append:
  assumes body: "r = pre @ ''<error>'' @ X @ CHR ''<'' # post"
    and first: "\<forall>i<length pre. \<not> occurs_at r ''<error>'' i"
    and X: "X \<noteq> []" "CHR ''<'' \<notin> set X"
  shows "WeatherProcessResponse env (r @ d) w =
           (Inr False,
            LOG_MSG (ERR_WEATHER_ERROR (c_str X)) (w\<lparr>processed := processed w @ [r @ d]\<rparr>))"
  using GetXMLValue_error_append [OF body first X(2), of d] X(1)
  by (rule WeatherProcessResponse_error)

text \<open>
  C5 (as the code has it). For every response body in which the first occurrence of
  \<^verbatim>\<open><error>\<close> is followed by a non-empty text \<open>X\<close> and then a \<^verbatim>\<open><\<close>,
  \<^verbatim>\<open>WeatherProcessResponse\<close> logs the error and returns \<^verbatim>\<open>false\<close> (the spec's
  \<^verbatim>\<open>ProtocolError(X)\<close>), whatever else the body holds, a valid \<^verbatim>\<open><altim_in_hg>\<close> included;
  the shared sink is not written. The text logged is \<open>X\<close> as a C string: \<open>X\<close> up to its
  first NUL byte, and \<open>X\<close> itself when it has none.
\<close>

theorem WeatherProcessResponse_error_precedence:
  assumes body: "r = pre @ ''<error>'' @ X @ CHR ''<'' # post"
    and first: "\<forall>i<length pre. \<not> occurs_at r ''<error>'' i"
    and X: "X \<noteq> []" "CHR ''<'' \<notin> set X"
  shows "WeatherProcessResponse env r w =
           (Inr False,
            LOG_MSG (ERR_WEATHER_ERROR (c_str X)) (w\<lparr>processed := processed w @ [r]\<rparr>)) \<and>
         (CHR 0x00 \<notin> set X \<longrightarrow> c_str X = X) \<and>
         weather (snd (WeatherProcessResponse env r w)) = weather w \<and>
         setWeatherCalls (snd (WeatherProcessResponse env r w)) = setWeatherCalls w"
  using WeatherProcessResponse_error_append [OF body first X, of env "[]" w]
  by (auto simp: LOG_MSG_def c_str_def)

theorem WeatherProcessResponse_error_precedence_witness:
  "WeatherProcessResponse (sample_env [])
     ''<errors><error>boom</error></errors><altim_in_hg>29.9</altim_in_hg>'' world0 =
   (Inr False, world0\<lparr>logged := [ERR_WEATHER_ERROR ''boom''],
      processed := [''<errors><error>boom</error></errors><altim_in_hg>29.9</altim_in_hg>'']\<rparr>)"
proof -
  let ?r = "''<errors><error>boom</error></errors><altim_in_hg>29.9</altim_in_hg>''"
  have "str_find ?r ''<error>'' 0 = Some 8"
    by (simp add: str_find_def)
  then have first: "\<forall>i<length ''<errors>''. \<not> occurs_at ?r ''<error>'' i"
    by (simp add: str_find_Some_iff)
  have "WeatherProcessResponse (sample_env []) ?r world0 =
           (Inr False, LOG_MSG (ERR_WEATHER_ERROR (c_str ''boom''))
              (world0\<lparr>processed := processed world0 @ [?r]\<rparr>)) \<and>
         (CHR 0x00 \<notin> set ''boom'' \<longrightarrow> c_str ''boom'' = ''boom'') \<and>
         weather (snd (WeatherProcessResponse (sample_env []) ?r world0)) = weather world0 \<and>
         setWeatherCalls (snd (WeatherProcessResponse (sample_env []) ?r world0)) =
           setWeatherCalls world0"
    by (rule WeatherProcessResponse_error_precedence
          [where pre = "''<errors>''" and post = "''/error></errors><altim_in_hg>29.9</altim_in_hg>''"])
       (use first in simp_all)
  then show ?thesis by (simp add: LOG_MSG_def world0_def)
qed

text \<open>
  The text that is logged ends at a NUL byte: \<^verbatim>\<open>val.c_str()\<close> is read by a \<^verbatim>\<open>%s\<close> format.
\<close>

lemma WeatherProcessResponse_error_NUL:
  "logged (snd (WeatherProcessResponse (sample_env [])
     [CHR ''<'', CHR ''e'', CHR ''r'', CHR ''r'', CHR ''o'', CHR ''r'', CHR ''>'',
      CHR ''a'', CHR 0x00, CHR ''b'', CHR ''<''] world0)) = [ERR_WEATHER_ERROR ''a'']"
  by (simp add: sample_defs interpreter_defs)

text \<open>
  C5 as stated speaks of every body that contains \<^verbatim>\<open><error>X</error>\<close> and a valid pressure.
  The scanner looks at the first \<^verbatim>\<open><error>\<close> only: when that one is empty, a later
  \<^verbatim>\<open><error>boom</error>\<close> is never seen, the pressure is read, the outcome is success and
  the sink is written.
\<close>

theorem WeatherProcessResponse_later_error_ignored:
  "fst (WeatherProcessResponse (sample_env [])
     ''<error></error><error>boom</error><altim_in_hg>29.9</altim_in_hg>'' world0) = Inr True \<and>
   setWeatherCalls (snd (WeatherProcessResponse (sample_env [])
     ''<error></error><error>boom</error><altim_in_hg>29.9</altim_in_hg>'' world0)) = 1 \<and>
   logged (snd (WeatherProcessResponse (sample_env [])
     ''<error></error><error>boom</error><altim_in_hg>29.9</altim_in_hg>'' world0)) = []"
  by (simp add: sample_defs interpreter_defs)

text \<open>
  The success path of \<^verbatim>\<open>WeatherProcessResponse\<close>.
\<close>

lemma station_fields_eq:
  assumes "station_fields r = (METAR, stationId, latv, lonv)"
  shows "\<exists>p1 p2 p3 p4. GetXMLValue r ''<raw_text>'' 0 = (METAR, p1) \<and>
           GetXMLValue r ''<station_id>'' p1 = (stationId, p2) \<and>
           GetXMLValue r ''<latitude>'' p2 = (latv, p3) \<and>
           GetXMLValue r ''<longitude>'' p3 = (lonv, p4)"
  using assms by (auto simp: station_fields_def Let_def split: prod.splits)

lemma WeatherProcessResponse_success:
  assumes err: "GetXMLValue r ''<error>'' 0 = ([], p)"
    and alt: "GetXMLValue r ''<altim_in_hg>'' p = (V, q)" "V \<noteq> []"
    and hPa: "stof env V = Inr x"
    and fields: "station_fields r = (METAR, stationId, latv, lonv)"
    and lat: "stof_opt env latv (NAN env) = Inr lat"
    and lon: "stof_opt env lonv (NAN env) = Inr lon"
  shows "WeatherProcessResponse env r w =
           (Inr True, SetWeather (to_hPa env x) lat lon stationId METAR
                        (w\<lparr>processed := processed w @ [r]\<rparr>))"
proof -
  from station_fields_eq [OF fields] obtain p1 p2 p3 p4 where
    "GetXMLValue r ''<raw_text>'' 0 = (METAR, p1)"
    "GetXMLValue r ''<station_id>'' p1 = (stationId, p2)"
    "GetXMLValue r ''<latitude>'' p2 = (latv, p3)"
    "GetXMLValue r ''<longitude>'' p3 = (lonv, p4)"
    by blast
  with err alt hPa lat lon show ?thesis
    by (simp add: WeatherProcessResponse_def)
qed

text \<open>
  C9 (as the code has it). For every response body in which the first occurrence of
  \<^verbatim>\<open><error>\<close> is immediately followed by \<^verbatim>\<open><\<close>: the \<^verbatim>\<open><error>\<close> extraction yields the
  empty string and leaves the cursor just after the tag, nothing is logged (the body is
  not taken for a protocol error), and if the first \<^verbatim>\<open><altim_in_hg>\<close> at or after that
  cursor has a non-empty text that \<^verbatim>\<open>std::stof\<close> accepts, and \<^verbatim>\<open>std::stof\<close> also accepts
  the latitude and longitude texts where they are non-empty, the outcome is success
  and the sink receives the observation.
\<close>

theorem WeatherProcessResponse_empty_error:
  assumes body: "r = pre @ ''<error>'' @ CHR ''<'' # post"
    and first: "\<forall>i<length pre. \<not> occurs_at r ''<error>'' i"
  shows "GetXMLValue r ''<error>'' 0 = ([], length pre + 7) \<and>
         logged (snd (WeatherProcessResponse env r w)) = logged w \<and>
         (r = pre2 @ ''<altim_in_hg>'' @ V @ CHR ''<'' # post2 \<and>
          length pre + 7 \<le> length pre2 \<and>
          (\<forall>j. length pre + 7 \<le> j \<and> j < length pre2 \<longrightarrow> \<not> occurs_at r ''<altim_in_hg>'' j) \<and>
          V \<noteq> [] \<and> CHR ''<'' \<notin> set V \<and> stof env V = Inr x \<and>
          station_fields r = (METAR, stationId, latv, lonv) \<and>
          stof_opt env latv (NAN env) = Inr lat \<and> stof_opt env lonv (NAN env) = Inr lon
          \<longrightarrow> WeatherProcessResponse env r w =
                (Inr True, SetWeather (to_hPa env x) lat lon stationId METAR
                             (w\<lparr>processed := processed w @ [r]\<rparr>)))"
proof -
  have err: "GetXMLValue r ''<error>'' 0 = ([], length pre + 7)"
    using GetXMLValue_found [of r pre "''<error>''" "[]" post 0] body first by simp
  have "WeatherProcessResponse env r w =
          (Inr True, SetWeather (to_hPa env x) lat lon stationId METAR
                       (w\<lparr>processed := processed w @ [r]\<rparr>))"
    if alt: "r = pre2 @ ''<altim_in_hg>'' @ V @ CHR ''<'' # post2"
      and le: "length pre + 7 \<le> length pre2"
      and first2: "\<forall>j. length pre + 7 \<le> j \<and> j < length pre2 \<longrightarrow> \<not> occurs_at r ''<altim_in_hg>'' j"
      and V: "V \<noteq> []" "CHR ''<'' \<notin> set V" and x: "stof env V = Inr x"
      and f: "station_fields r = (METAR, stationId, latv, lonv)"
      and lat: "stof_opt env latv (NAN env) = Inr lat"
      and lon: "stof_opt env lonv (NAN env) = Inr lon"
  proof -
    from GetXMLValue_found [OF alt le first2 V(2)]
    have "GetXMLValue r ''<altim_in_hg>'' (length pre + 7) =
            (V, length pre2 + length ''<altim_in_hg>'' + length V)" .
    from WeatherProcessResponse_success [OF err this V(1) x f lat lon]
    show ?thesis .
  qed
  with err WeatherProcessResponse_no_error_logged [OF err] show ?thesis
    by blast
qed

theorem WeatherProcessResponse_empty_error_witness:
  "GetXMLValue ''<errors><error></error></errors><altim_in_hg>29.9</altim_in_hg>'' ''<error>'' 0 =
     ([], 15) \<and>
   WeatherProcessResponse (sample_env [])
     ''<errors><error></error></errors><altim_in_hg>29.9</altim_in_hg>'' world0 =
   (Inr True,
    world0\<lparr>weather := \<lparr>w_hPa = Times_HPA_per_INCH (Stof ''29.9''), w_lat = FNAN, w_lon = FNAN,
                        w_stationId = [], w_METAR = []\<rparr>,
      setWeatherCalls := 1,
      processed := [''<errors><error></error></errors><altim_in_hg>29.9</altim_in_hg>'']\<rparr>)"
proof -
  let ?r = "''<errors><error></error></errors><altim_in_hg>29.9</altim_in_hg>''"
  let ?env = "sample_env [] :: float_term env"
  have "str_find ?r ''<error>'' 0 = Some 8"
    by (simp add: str_find_def)
  then have first: "\<forall>i<length ''<errors>''. \<not> occurs_at ?r ''<error>'' i"
    by (simp add: str_find_Some_iff)
  have "str_find ?r ''<altim_in_hg>'' 15 = Some 32"
    by (simp add: str_find_def)
  then have first2: "\<forall>j. length ''<errors>'' + 7 \<le> j \<and>
      j < length ''<errors><error></error></errors>'' \<longrightarrow> \<not> occurs_at ?r ''<altim_in_hg>'' j"
    by (simp add: str_find_Some_iff)
  have fields: "station_fields ?r = ([], [], [], [])"
    by (simp add: station_fields_def GetXMLValue_def str_find_def)
  have "GetXMLValue ?r ''<error>'' 0 = ([], length ''<errors>'' + 7) \<and>
         logged (snd (WeatherProcessResponse ?env ?r world0)) = logged world0 \<and>
         (?r = ''<errors><error></error></errors>'' @ ''<altim_in_hg>'' @ ''29.9'' @
                CHR ''<'' # ''/altim_in_hg>'' \<and>
          length ''<errors>'' + 7 \<le> length ''<errors><error></error></errors>'' \<and>
          (\<forall>j. length ''<errors>'' + 7 \<le> j \<and> j < length ''<errors><error></error></errors>''
              \<longrightarrow> \<not> occurs_at ?r ''<altim_in_hg>'' j) \<and>
          ''29.9'' \<noteq> [] \<and> CHR ''<'' \<notin> set ''29.9'' \<and>
          stof ?env ''29.9'' = Inr (Stof ''29.9'') \<and>
          station_fields ?r = ([], [], [], []) \<and>
          stof_opt ?env [] (NAN ?env) = Inr FNAN \<and> stof_opt ?env [] (NAN ?env) = Inr FNAN
          \<longrightarrow> WeatherProcessResponse ?env ?r world0 =
                (Inr True, SetWeather (to_hPa ?env (Stof ''29.9'')) FNAN FNAN [] []
                             (world0\<lparr>processed := processed world0 @ [?r]\<rparr>)))"
    by (rule WeatherProcessResponse_empty_error
          [where pre = "''<errors>''" and post = "''/error></errors><altim_in_hg>29.9</altim_in_hg>''"])
       (use first in simp_all)
  with first2 fields show ?thesis
    by (simp add: sample_defs stof_opt_def SetWeather_def)
qed

text \<open>
  C9 as stated promises success for every non-empty \<^verbatim>\<open><altim_in_hg>\<close> after the empty
  \<^verbatim>\<open><error>\<close>. With the text \<^verbatim>\<open>abc\<close> the conversion throws \<^verbatim>\<open>std::invalid_argument\<close> and the
  sink is not written.
\<close>

theorem WeatherProcessResponse_pressure_not_a_number:
  "GetXMLValue ''<error></error><altim_in_hg>abc</altim_in_hg>'' ''<error>'' 0 = ([], 7) \<and>
   GetXMLValue ''<error></error><altim_in_hg>abc</altim_in_hg>'' ''<altim_in_hg>'' 7 = (''abc'', 31) \<and>
   WeatherProcessResponse (sample_env [])
     ''<error></error><altim_in_hg>abc</altim_in_hg>'' world0 =
   (Inl invalid_argument,
    world0\<lparr>processed := [''<error></error><altim_in_hg>abc</altim_in_hg>'']\<rparr>)"
  by (simp add: sample_defs interpreter_defs)

subsection \<open>The worker\<close>

lemma foldl_WeatherFetchCB: "foldl WeatherFetchCB buf cs = buf @ concat cs"
  by (induction cs arbitrary: buf) (simp_all add: WeatherFetchCB_def)

text \<open>
  The HTTP GET in the vocabulary of requests: it ends with the request's answer, appends
  what was received to \<open>readBuf\<close>, and leaves the sink, the interpreter's record, \<open>bRet\<close>
  and the radius alone.
\<close>

lemma perform_request_eq:
  "perform_request env req l w =
     (answer env (nperf l) req,
      l\<lparr>readBuf := readBuf l @ received env (nperf l) req,
        no_revoke := no_revoke l \<or> revocation_retry env (nperf l) req,
        nperf := nperf l + length (performs env (nperf l) req)\<rparr>,
      w\<lparr>logged := logged w @
          (if revocation_retry env (nperf l) req then [ERR_CURL_DISABLE_REV_QU] else []) @
          (if cc (answer env (nperf l) req) \<noteq> CURLE_OK
           then [ERR_CURL_NOVERCHECK (cc (answer env (nperf l) req))
                   (c_str (errtxt (answer env (nperf l) req)))]
           else []),
        performed := performed w @ performs env (nperf l) req\<rparr>)"
  by (simp add: perform_request_def curl_easy_perform_def Let_def LOG_MSG_def
        foldl_WeatherFetchCB answer_def received_def performs_def revocation_retry_def)

lemma perform_request_frame:
  assumes "perform_request env req l w = (resp, l', w')"
  shows "processed w' = processed w \<and> weather w' = weather w \<and>
         setWeatherCalls w' = setWeatherCalls w \<and> bRet l' = bRet l \<and>
         radius_nm l' = radius_nm l \<and> take (length (readBuf l)) (readBuf l') = readBuf l"
  using assms by (auto simp: perform_request_eq)

lemma perform_request_logged:
  "perform_request env req l w = (resp, l', w') \<Longrightarrow> \<exists>m. logged w' = logged w @ m"
  by (auto simp: perform_request_eq)

lemma evaluate_response_facts:
  assumes "evaluate_response env resp l w = (res, l', w')"
  shows "readBuf l' = readBuf l \<and>
        ((res = Inr False \<and> bRet l' = bRet l \<and> processed w' = processed w \<and>
          weather w' = weather w \<and> setWeatherCalls w' = setWeatherCalls w)
       \<or> (\<exists>r wb. WeatherProcessResponse env (readBuf l) w = (r, wb) \<and>
            processed w' = processed wb \<and> weather w' = weather wb \<and>
            setWeatherCalls w' = setWeatherCalls wb \<and>
            (case r of
               Inl e \<Rightarrow> res = Inl e \<and> bRet l' = bRet l \<and> w' = wb
             | Inr b \<Rightarrow> bRet l' = b \<and> res = Inr (\<not> b \<and> radius_nm l < MAX_WEATHER_RADIUS_NM))))"
proof (cases "cc resp = CURLE_OK \<and> httpResponse resp = HTTP_OK")
  case False
  with assms show ?thesis
    by (auto simp: evaluate_response_def LOG_MSG_def split: if_splits)
next
  case True
  obtain r wb where r: "WeatherProcessResponse env (readBuf l) w = (r, wb)"
    by (cases "WeatherProcessResponse env (readBuf l) w")
  with True assms show ?thesis
    by (cases r) (auto simp: evaluate_response_def LOG_MSG_def Let_def split: if_splits)
qed

lemma evaluate_response_performed:
  assumes "evaluate_response env resp l w = (res, l', w')"
  shows "performed w' = performed w"
proof -
  obtain r wb where r: "WeatherProcessResponse env (readBuf l) w = (r, wb)"
    by (cases "WeatherProcessResponse env (readBuf l) w")
  from WeatherProcessResponse_effect [OF r] have "performed wb = performed w" by simp
  with assms r show ?thesis
    by (auto simp: evaluate_response_def LOG_MSG_def Let_def split: if_splits sum.splits)
qed

lemma evaluate_response_logged:
  assumes "evaluate_response env resp l w = (res, l', w')"
  shows "\<exists>m. logged w' = logged w @ m"
proof -
  obtain r wb where r: "WeatherProcessResponse env (readBuf l) w = (r, wb)"
    by (cases "WeatherProcessResponse env (readBuf l) w")
  with WeatherProcessResponse_logged [of env "readBuf l" w]
  obtain m where "logged wb = logged w @ m" by auto
  with assms r show ?thesis
    by (auto simp: evaluate_response_def LOG_MSG_def Let_def split: if_splits sum.splits)
qed

text \<open>What one pass does, seen from outside.\<close>

lemma WeatherFetch_body_facts:
  assumes "WeatherFetch_body env lat lon l w = (res, l', w')"
  shows "take (length (readBuf l)) (readBuf l') = readBuf l \<and>
        ((res = Inr False \<and> bRet l' = bRet l \<and> processed w' = processed w \<and>
          weather w' = weather w \<and> setWeatherCalls w' = setWeatherCalls w)
       \<or> (\<exists>r wa wb. WeatherProcessResponse env (readBuf l') wa = (r, wb) \<and>
            processed wa = processed w \<and> weather wa = weather w \<and>
            setWeatherCalls wa = setWeatherCalls w \<and>
            processed w' = processed wb \<and> weather w' = weather wb \<and>
            setWeatherCalls w' = setWeatherCalls wb \<and>
            (case r of
               Inl e \<Rightarrow> res = Inl e \<and> bRet l' = bRet l \<and> w' = wb
             | Inr b \<Rightarrow> bRet l' = b \<and> res = Inr (\<not> b \<and> radius_nm l < MAX_WEATHER_RADIUS_NM))))"
proof -
  let ?req = "\<lparr>req_radius_nm = radius_nm l, req_lon = lon, req_lat = lat,
               req_no_revoke = no_revoke l\<rparr>"
  obtain resp l1 w1 where p: "perform_request env ?req l w = (resp, l1, w1)"
    by (cases "perform_request env ?req l w")
  with assms have e: "evaluate_response env resp l1 w1 = (res, l', w')"
    by (simp add: WeatherFetch_body_def)
  note f = perform_request_frame [OF p]
  from evaluate_response_facts [OF e] have rb: "readBuf l' = readBuf l1" by simp
  from evaluate_response_facts [OF e]
  consider (plain) "res = Inr False" "bRet l' = bRet l1" "processed w' = processed w1"
      "weather w' = weather w1" "setWeatherCalls w' = setWeatherCalls w1"
    | (interp) r wb where "WeatherProcessResponse env (readBuf l1) w1 = (r, wb)"
      "processed w' = processed wb" "weather w' = weather wb"
      "setWeatherCalls w' = setWeatherCalls wb"
      "case r of Inl e \<Rightarrow> res = Inl e \<and> bRet l' = bRet l1 \<and> w' = wb
       | Inr b \<Rightarrow> bRet l' = b \<and> res = Inr (\<not> b \<and> radius_nm l1 < MAX_WEATHER_RADIUS_NM)"
    by blast
  then show ?thesis
  proof cases
    case plain
    with f rb show ?thesis by simp
  next
    case interp
    have "\<exists>r wa wb. WeatherProcessResponse env (readBuf l') wa = (r, wb) \<and>
            processed wa = processed w \<and> weather wa = weather w \<and>
            setWeatherCalls wa = setWeatherCalls w \<and>
            processed w' = processed wb \<and> weather w' = weather wb \<and>
            setWeatherCalls w' = setWeatherCalls wb \<and>
            (case r of
               Inl e \<Rightarrow> res = Inl e \<and> bRet l' = bRet l \<and> w' = wb
             | Inr b \<Rightarrow> bRet l' = b \<and> res = Inr (\<not> b \<and> radius_nm l < MAX_WEATHER_RADIUS_NM))"
      apply (rule exI [of _ r], rule exI [of _ w1], rule exI [of _ wb])
      using interp f rb by (simp split: sum.splits)
    with f rb show ?thesis by simp
  qed
qed

lemma WeatherFetch_body_logged:
  assumes "WeatherFetch_body env lat lon l w = (res, l', w')"
  shows "\<exists>m. logged w' = logged w @ m"
proof -
  let ?req = "\<lparr>req_radius_nm = radius_nm l, req_lon = lon, req_lat = lat,
               req_no_revoke = no_revoke l\<rparr>"
  obtain resp l1 w1 where p: "perform_request env ?req l w = (resp, l1, w1)"
    by (cases "perform_request env ?req l w")
  with assms have e: "evaluate_response env resp l1 w1 = (res, l', w')"
    by (simp add: WeatherFetch_body_def)
  from perform_request_logged [OF p] evaluate_response_logged [OF e]
  show ?thesis by auto
qed

text \<open>
  One pass in the vocabulary of requests: the calls of \<^verbatim>\<open>curl_easy_perform\<close> it makes, the
  buffer it hands to the interpreter (only after an HTTP 200), and whether the loop
  repeats.
\<close>

lemma WeatherFetch_body_pass:
  assumes body: "WeatherFetch_body env lat lon l w = (res, l', w')"
    and req: "req = \<lparr>req_radius_nm = radius_nm l, req_lon = lon, req_lat = lat,
                req_no_revoke = no_revoke l\<rparr>"
    and buf: "buf = readBuf l @ received env (nperf l) req"
  shows "performed w' = performed w @ performs env (nperf l) req"
    and "processed w' = processed w @ (if http_200 (answer env (nperf l) req) then [buf] else [])"
    and "res = (if http_200 (answer env (nperf l) req) then
                  (case fst (WeatherProcessResponse env buf w0) of
                     Inl e \<Rightarrow> Inl e
                   | Inr found \<Rightarrow> Inr (\<not> found \<and> radius_nm l < MAX_WEATHER_RADIUS_NM))
                else Inr False)"
    and "readBuf l' = buf"
    and "nperf l' = nperf l + length (performs env (nperf l) req)"
    and "no_revoke l' = (no_revoke l \<or> revocation_retry env (nperf l) req)"
proof -
  let ?a = "answer env (nperf l) req"
  let ?l1 = "l\<lparr>readBuf := buf,
        no_revoke := no_revoke l \<or> revocation_retry env (nperf l) req,
        nperf := nperf l + length (performs env (nperf l) req)\<rparr>"
  let ?w1 = "w\<lparr>logged := logged w @
          (if revocation_retry env (nperf l) req then [ERR_CURL_DISABLE_REV_QU] else []) @
          (if cc ?a \<noteq> CURLE_OK
           then [ERR_CURL_NOVERCHECK (cc ?a) (c_str (errtxt ?a))] else []),
        performed := performed w @ performs env (nperf l) req\<rparr>"
  have e: "evaluate_response env ?a ?l1 ?w1 = (res, l', w')"
    using body unfolding req buf
    by (simp only: WeatherFetch_body_def perform_request_eq Let_def prod.case)
  obtain r wb where r: "WeatherProcessResponse env buf ?w1 = (r, wb)"
    by (cases "WeatherProcessResponse env buf ?w1")
  note eff = WeatherProcessResponse_effect [OF r]
  have fst_r: "fst (WeatherProcessResponse env buf w0) = r"
    using r by (simp only: WeatherProcessResponse_fst [of env buf w0 ?w1] fst_conv)
  show "performed w' = performed w @ performs env (nperf l) req"
    using evaluate_response_performed [OF e] by simp
  show "readBuf l' = buf"
    using evaluate_response_facts [OF e] by simp
  show "processed w' = processed w @ (if http_200 ?a then [buf] else [])"
    using e r eff
    by (cases r) (auto simp: evaluate_response_def http_200_def LOG_MSG_def Let_def
                       split: if_splits)
  show "res = (if http_200 ?a then
                  (case fst (WeatherProcessResponse env buf w0) of
                     Inl e \<Rightarrow> Inl e
                   | Inr found \<Rightarrow> Inr (\<not> found \<and> radius_nm l < MAX_WEATHER_RADIUS_NM))
                else Inr False)"
    unfolding fst_r using e r
    by (cases r) (auto simp: evaluate_response_def http_200_def Let_def split: if_splits)
  show "nperf l' = nperf l + length (performs env (nperf l) req)"
    using e r
    by (cases r) (auto simp: evaluate_response_def Let_def split: if_splits)
  show "no_revoke l' = (no_revoke l \<or> revocation_retry env (nperf l) req)"
    using e r
    by (cases r) (auto simp: evaluate_response_def Let_def split: if_splits)
qed

text \<open>A pass that is answered with HTTP 200 and an error body: what it logs.\<close>

lemma WeatherFetch_body_error_logged:
  assumes body: "WeatherFetch_body env lat lon l w = (res, l', w')"
    and req: "req = \<lparr>req_radius_nm = radius_nm l, req_lon = lon, req_lat = lat,
                req_no_revoke = no_revoke l\<rparr>"
    and ok: "http_200 (answer env (nperf l) req)"
    and err: "GetXMLValue (readBuf l @ received env (nperf l) req) ''<error>'' 0 = (X, p)"
      "X \<noteq> []"
  shows "logged w' = logged w @
           (if revocation_retry env (nperf l) req then [ERR_CURL_DISABLE_REV_QU] else []) @
           [ERR_WEATHER_ERROR (c_str X), WARN_NO_WEATHER (radius_nm l)]"
proof -
  let ?a = "answer env (nperf l) req"
  from ok have a: "cc ?a = CURLE_OK" "httpResponse ?a = HTTP_OK"
    by (simp_all add: http_200_def)
  from body have "evaluate_response env ?a
      (l\<lparr>readBuf := readBuf l @ received env (nperf l) req,
        no_revoke := no_revoke l \<or> revocation_retry env (nperf l) req,
        nperf := nperf l + length (performs env (nperf l) req)\<rparr>)
      (w\<lparr>logged := logged w @
          (if revocation_retry env (nperf l) req then [ERR_CURL_DISABLE_REV_QU] else []) @
          (if cc ?a \<noteq> CURLE_OK
           then [ERR_CURL_NOVERCHECK (cc ?a) (c_str (errtxt ?a))] else []),
        performed := performed w @ performs env (nperf l) req\<rparr>) = (res, l', w')"
    unfolding req
    by (simp only: WeatherFetch_body_def perform_request_eq Let_def prod.case)
  then show ?thesis
    using a by (auto simp: evaluate_response_def WeatherProcessResponse_error [OF err]
                  LOG_MSG_def Let_def split: if_splits)
qed

lemma WeatherFetch_loop_unroll:
  "WeatherFetch_loop env lat lon l w =
     (case WeatherFetch_body env lat lon l w of
        (Inl e, l1, w1) \<Rightarrow> (Inl e, l1, w1)
      | (Inr bRepeat, l1, w1) \<Rightarrow>
          if bRepeat then
            (case WeatherFetch_body env lat lon l1 w1 of
               (Inl e, l2, w2) \<Rightarrow> (Inl e, l2, w2)
             | (Inr b, l2, w2) \<Rightarrow> (Inr (), l2, w2))
          else (Inr (), l1, w1))"
proof -
  obtain res l1 w1 where b1: "WeatherFetch_body env lat lon l w = (res, l1, w1)"
    by (cases "WeatherFetch_body env lat lon l w")
  show ?thesis
  proof (cases "res = Inr True")
    case False
    with b1 show ?thesis
      by (subst WeatherFetch_loop.simps) (auto split: sum.splits)
  next
    case True
    with b1 have r1: "radius_nm l1 = MAX_WEATHER_RADIUS_NM"
      using WeatherFetch_body_repeat by blast
    obtain res2 l2 w2 where b2: "WeatherFetch_body env lat lon l1 w1 = (res2, l2, w2)"
      by (cases "WeatherFetch_body env lat lon l1 w1")
    have "res2 \<noteq> Inr True"
    proof
      assume "res2 = Inr True"
      with b2 have "radius_nm l1 < MAX_WEATHER_RADIUS_NM"
        using WeatherFetch_body_repeat by blast
      with r1 show False by simp
    qed
    then have "WeatherFetch_loop env lat lon l1 w1 =
        (case res2 of Inl e \<Rightarrow> (Inl e, l2, w2) | Inr b \<Rightarrow> (Inr (), l2, w2))"
      using b2 by (subst WeatherFetch_loop.simps) (auto split: sum.splits)
    with b1 b2 True show ?thesis
      by (subst WeatherFetch_loop.simps) (simp split: sum.splits)
  qed
qed

lemmas worker_defs = WeatherFetch_def WeatherFetch_loop_unroll WeatherFetch_body_def
  perform_request_def curl_easy_perform_def evaluate_response_def WeatherFetchCB_def
  CURLE_OK_def HTTP_OK_def MAX_WEATHER_RADIUS_NM_def

lemmas request_defs = revocation_retry_def performs_def answer_def received_def
  req_values_def http_200_def

text \<open>
  One pass entered with \<open>bRet\<close> false: the buffers it hands to the interpreter (at most
  one), what the interpreter makes of them, and what becomes of the sink.
\<close>

lemma WeatherFetch_body_outcome:
  assumes body: "WeatherFetch_body env lat lon l w = (res, l', w')" and nb: "\<not> bRet l"
  shows "\<exists>bufs. processed w' = processed w @ bufs \<and>
           (\<forall>buf\<in>set bufs. fst (WeatherProcessResponse env buf w0) =
                (case res of Inl e \<Rightarrow> Inl e | Inr rep \<Rightarrow> Inr (bRet l'))) \<and>
           (bufs = [] \<longrightarrow> res = Inr False) \<and>
           (res \<noteq> Inr False \<longrightarrow> \<not> bRet l') \<and>
           (bRet l' \<longleftrightarrow> (\<exists>buf\<in>set bufs. fst (WeatherProcessResponse env buf w0) = Inr True)) \<and>
           setWeatherCalls w' = setWeatherCalls w + (if bRet l' then 1 else 0) \<and>
           (\<not> bRet l' \<longrightarrow> weather w' = weather w)"
proof -
  from WeatherFetch_body_facts [OF body]
  consider (plain) "res = Inr False" "bRet l' = bRet l" "processed w' = processed w"
      "weather w' = weather w" "setWeatherCalls w' = setWeatherCalls w"
    | (interp) r wa wb where "WeatherProcessResponse env (readBuf l') wa = (r, wb)"
      "processed wa = processed w" "weather wa = weather w"
      "setWeatherCalls wa = setWeatherCalls w"
      "processed w' = processed wb" "weather w' = weather wb"
      "setWeatherCalls w' = setWeatherCalls wb"
      "case r of Inl e \<Rightarrow> res = Inl e \<and> bRet l' = bRet l \<and> w' = wb
       | Inr b \<Rightarrow> bRet l' = b \<and> res = Inr (\<not> b \<and> radius_nm l < MAX_WEATHER_RADIUS_NM)"
    by blast
  then show ?thesis
  proof cases
    case plain
    with nb show ?thesis by (intro exI [of _ "[]"]) simp
  next
    case interp
    note eff = WeatherProcessResponse_effect [OF interp(1)]
    have fst_r: "fst (WeatherProcessResponse env (readBuf l') w0) = r"
      using WeatherProcessResponse_fst [of env "readBuf l'" w0 wa] interp(1) by simp
    have out: "r = (case res of Inl e \<Rightarrow> Inl e | Inr rep \<Rightarrow> Inr (bRet l'))"
      using interp(8) by (auto split: sum.splits)
    have br: "bRet l' \<longleftrightarrow> r = Inr True"
      using interp(8) nb by (auto split: sum.splits)
    have res: "res \<noteq> Inr False \<longrightarrow> \<not> bRet l'"
      using interp(8) nb by (auto split: sum.splits)
    show ?thesis
      apply (intro exI [of _ "[readBuf l']"])
      using eff interp(2-7) fst_r out br res by auto
  qed
qed

text \<open>What the sink holds after a successful pass does not depend on what it held before.\<close>

lemma WeatherProcessResponse_weather:
  assumes "fst (WeatherProcessResponse env r v) = Inr True"
  shows "weather (snd (WeatherProcessResponse env r v)) =
         weather (snd (WeatherProcessResponse env r v'))"
proof -
  obtain X p where e: "GetXMLValue r ''<error>'' 0 = (X, p)"
    by (cases "GetXMLValue r ''<error>'' 0")
  obtain V q where a: "GetXMLValue r ''<altim_in_hg>'' p = (V, q)"
    by (cases "GetXMLValue r ''<altim_in_hg>'' p")
  obtain Me p1 where m: "GetXMLValue r ''<raw_text>'' 0 = (Me, p1)"
    by (cases "GetXMLValue r ''<raw_text>'' 0")
  obtain St p2 where s: "GetXMLValue r ''<station_id>'' p1 = (St, p2)"
    by (cases "GetXMLValue r ''<station_id>'' p1")
  obtain La p3 where la: "GetXMLValue r ''<latitude>'' p2 = (La, p3)"
    by (cases "GetXMLValue r ''<latitude>'' p2")
  obtain Lo p4 where lo: "GetXMLValue r ''<longitude>'' p3 = (Lo, p4)"
    by (cases "GetXMLValue r ''<longitude>'' p3")
  show ?thesis
    using assms
    by (cases "stof env V"; cases "stof_opt env La (NAN env)";
        cases "stof_opt env Lo (NAN env)")
       (simp_all add: WeatherProcessResponse_def e a m s la lo SetWeather_def LOG_MSG_def
          Let_def split: if_splits)
qed

lemma WeatherFetch_body_written:
  assumes body: "WeatherFetch_body env lat lon l w = (res, l', w')"
    and nb: "\<not> bRet l" and b: "bRet l'"
  shows "weather w' = weather (snd (WeatherProcessResponse env (readBuf l') w0))"
    and "processed w' = processed w @ [readBuf l']"
    and "res = Inr False"
proof -
  from WeatherFetch_body_facts [OF body] nb b
  obtain r wa wb where r: "WeatherProcessResponse env (readBuf l') wa = (r, wb)"
    and wa: "processed wa = processed w"
    and wb: "processed w' = processed wb" "weather w' = weather wb"
    and c: "case r of Inl e \<Rightarrow> res = Inl e \<and> bRet l' = bRet l \<and> w' = wb
       | Inr b \<Rightarrow> bRet l' = b \<and> res = Inr (\<not> b \<and> radius_nm l < MAX_WEATHER_RADIUS_NM)"
    by blast
  from c nb b have rT: "r = Inr True" by (cases r) simp_all
  with c b show "res = Inr False" by simp
  from WeatherProcessResponse_effect [OF r] wa wb
  show "processed w' = processed w @ [readBuf l']" by simp
  from r rT have "fst (WeatherProcessResponse env (readBuf l') wa) = Inr True" by simp
  from WeatherProcessResponse_weather [OF this, of w0] r wb
  show "weather w' = weather (snd (WeatherProcessResponse env (readBuf l') w0))" by simp
qed

text \<open>The whole loop, entered with \<open>bRet\<close> false.\<close>

lemma WeatherFetch_loop_outcome:
  assumes loop: "WeatherFetch_loop env lat lon l w = (res, l', w')" and nb: "\<not> bRet l"
  shows "\<exists>bufs. processed w' = processed w @ bufs \<and>
           (bRet l' \<longleftrightarrow> (\<exists>buf\<in>set bufs. fst (WeatherProcessResponse env buf w0) = Inr True)) \<and>
           (\<forall>buf\<in>set bufs. \<forall>e. fst (WeatherProcessResponse env buf w0) = Inl e \<longrightarrow>
                res = Inl e) \<and>
           (\<forall>e. res = Inl e \<longrightarrow> \<not> bRet l') \<and>
           setWeatherCalls w' = setWeatherCalls w + (if bRet l' then 1 else 0) \<and>
           (\<not> bRet l' \<longrightarrow> weather w' = weather w)"
proof -
  let ?I = "\<lambda>buf. fst (WeatherProcessResponse env buf w0)"
  obtain r1 l1 w1 where b1: "WeatherFetch_body env lat lon l w = (r1, l1, w1)"
    by (cases "WeatherFetch_body env lat lon l w")
  from WeatherFetch_body_outcome [OF b1 nb, of w0] obtain bufs1 where
    p1: "processed w1 = processed w @ bufs1"
    and i1: "\<forall>buf\<in>set bufs1. ?I buf = (case r1 of Inl e \<Rightarrow> Inl e | Inr rep \<Rightarrow> Inr (bRet l1))"
    and n1: "r1 \<noteq> Inr False \<longrightarrow> \<not> bRet l1"
    and t1: "bRet l1 \<longleftrightarrow> (\<exists>buf\<in>set bufs1. ?I buf = Inr True)"
    and c1: "setWeatherCalls w1 = setWeatherCalls w + (if bRet l1 then 1 else 0)"
    and k1: "\<not> bRet l1 \<longrightarrow> weather w1 = weather w"
    by blast
  show ?thesis
  proof (cases "r1 = Inr True")
    case False
    with loop b1 have fin: "l' = l1" "w' = w1"
      and res: "res = (case r1 of Inl e \<Rightarrow> Inl e | Inr rep \<Rightarrow> Inr ())"
      by (auto simp: WeatherFetch_loop_unroll split: sum.splits)
    have a: "\<forall>buf\<in>set bufs1. \<forall>e. ?I buf = Inl e \<longrightarrow> res = Inl e"
      using i1 res by (cases r1) simp_all
    have b: "\<forall>e. res = Inl e \<longrightarrow> \<not> bRet l'"
      using n1 res fin by (cases r1) simp_all
    from p1 t1 c1 k1 a b show ?thesis
      unfolding fin by blast
  next
    case True
    with n1 have nb1: "\<not> bRet l1" by simp
    obtain r2 l2 w2 where b2: "WeatherFetch_body env lat lon l1 w1 = (r2, l2, w2)"
      by (cases "WeatherFetch_body env lat lon l1 w1")
    from WeatherFetch_body_outcome [OF b2 nb1, of w0] obtain bufs2 where
      p2: "processed w2 = processed w1 @ bufs2"
      and i2: "\<forall>buf\<in>set bufs2. ?I buf = (case r2 of Inl e \<Rightarrow> Inl e | Inr rep \<Rightarrow> Inr (bRet l2))"
      and n2: "r2 \<noteq> Inr False \<longrightarrow> \<not> bRet l2"
      and t2: "bRet l2 \<longleftrightarrow> (\<exists>buf\<in>set bufs2. ?I buf = Inr True)"
      and c2: "setWeatherCalls w2 = setWeatherCalls w1 + (if bRet l2 then 1 else 0)"
      and k2: "\<not> bRet l2 \<longrightarrow> weather w2 = weather w1"
      by blast
    from loop b1 b2 True have fin: "l' = l2" "w' = w2"
      and res: "res = (case r2 of Inl e \<Rightarrow> Inl e | Inr rep \<Rightarrow> Inr ())"
      by (auto simp: WeatherFetch_loop_unroll split: sum.splits)
    from i1 True nb1 have f1: "\<forall>buf\<in>set bufs1. ?I buf = Inr False"
      by simp
    have p: "processed w2 = processed w @ (bufs1 @ bufs2)"
      using p1 p2 by simp
    have t: "bRet l2 \<longleftrightarrow> (\<exists>buf\<in>set (bufs1 @ bufs2). ?I buf = Inr True)"
      using t2 f1 by auto
    have a: "\<forall>buf\<in>set (bufs1 @ bufs2). \<forall>e. ?I buf = Inl e \<longrightarrow> res = Inl e"
      using i2 f1 res by (cases r2) auto
    have b: "\<forall>e. res = Inl e \<longrightarrow> \<not> bRet l2"
      using n2 res by (cases r2) simp_all
    have c: "setWeatherCalls w2 = setWeatherCalls w + (if bRet l2 then 1 else 0)"
      using c1 c2 nb1 by simp
    have k: "\<not> bRet l2 \<longrightarrow> weather w2 = weather w"
      using k1 k2 nb1 by simp
    from p t a b c k show ?thesis
      unfolding fin by blast
  qed
qed

text \<open>The fetch as a whole.\<close>

lemma WeatherFetch_outcome:
  assumes "WeatherFetch env lat lon radius w = (b, w')"
  shows "\<exists>bufs. processed w' = processed w @ bufs \<and>
           (b \<longleftrightarrow> (\<exists>buf\<in>set bufs. fst (WeatherProcessResponse env buf w0) = Inr True)) \<and>
           (\<forall>buf\<in>set bufs. \<forall>e. fst (WeatherProcessResponse env buf w0) = Inl e \<longrightarrow>
                \<not> b \<and> logged w' \<noteq> [] \<and> last (logged w') = ERR_FETCH_EXCEPTION e) \<and>
           setWeatherCalls w' = setWeatherCalls w + (if b then 1 else 0) \<and>
           (\<not> b \<longrightarrow> weather w' = weather w)"
proof (cases "curl_easy_init_ok env")
  case False
  with assms show ?thesis
    by (intro exI [of _ "[]"]) (auto simp: WeatherFetch_def LOG_MSG_def)
next
  case True
  let ?l0 = "\<lparr>radius_nm = radius, readBuf = [], bRet = False, no_revoke = False, nperf = 0\<rparr>"
  obtain res l1 w1 where loop: "WeatherFetch_loop env lat lon ?l0 w = (res, l1, w1)"
    by (cases "WeatherFetch_loop env lat lon ?l0 w")
  have "\<not> bRet ?l0" by simp
  from WeatherFetch_loop_outcome [OF loop this, of w0] obtain bufs where
    p: "processed w1 = processed w @ bufs"
    and t: "bRet l1 \<longleftrightarrow> (\<exists>buf\<in>set bufs. fst (WeatherProcessResponse env buf w0) = Inr True)"
    and a: "\<forall>buf\<in>set bufs. \<forall>e. fst (WeatherProcessResponse env buf w0) = Inl e \<longrightarrow> res = Inl e"
    and n: "\<forall>e. res = Inl e \<longrightarrow> \<not> bRet l1"
    and c: "setWeatherCalls w1 = setWeatherCalls w + (if bRet l1 then 1 else 0)"
    and k: "\<not> bRet l1 \<longrightarrow> weather w1 = weather w"
    by blast
  from assms True loop have fin: "b = bRet l1"
    and w': "w' = (case res of Inl e \<Rightarrow> LOG_MSG (ERR_FETCH_EXCEPTION e) w1 | Inr u \<Rightarrow> w1)"
    by (auto simp: WeatherFetch_def split: sum.splits)
  have same: "processed w' = processed w1" "setWeatherCalls w' = setWeatherCalls w1"
    "weather w' = weather w1"
    using w' by (cases res; simp add: LOG_MSG_def)+
  have exn: "\<forall>buf\<in>set bufs. \<forall>e. fst (WeatherProcessResponse env buf w0) = Inl e \<longrightarrow>
                \<not> b \<and> logged w' \<noteq> [] \<and> last (logged w') = ERR_FETCH_EXCEPTION e"
  proof (intro ballI allI impI)
    fix buf e assume "buf \<in> set bufs" "fst (WeatherProcessResponse env buf w0) = Inl e"
    with a have "res = Inl e" by blast
    with n fin w' show "\<not> b \<and> logged w' \<noteq> [] \<and> last (logged w') = ERR_FETCH_EXCEPTION e"
      by (simp add: LOG_MSG_def)
  qed
  from p t c k exn show ?thesis
    unfolding same fin by blast
qed

text \<open>
  The passes of a fetch that got its handle: the first pass, the second one when the
  first asks for it, and what the fetch returns.
\<close>

lemma WeatherFetch_passes:
  assumes run: "WeatherFetch env lat lon radius w = (b, w')"
    and init: "curl_easy_init_ok env"
  obtains r l v where
      "WeatherFetch_body env lat lon
         \<lparr>radius_nm = radius, readBuf = [], bRet = False, no_revoke = False, nperf = 0\<rparr> w =
       (r, l, v)"
      "r \<noteq> Inr True" "b = bRet l"
      "w' = (case r of Inl e \<Rightarrow> LOG_MSG (ERR_FETCH_EXCEPTION e) v | Inr u \<Rightarrow> v)"
    | l v r' l' v' where
      "WeatherFetch_body env lat lon
         \<lparr>radius_nm = radius, readBuf = [], bRet = False, no_revoke = False, nperf = 0\<rparr> w =
       (Inr True, l, v)"
      "WeatherFetch_body env lat lon l v = (r', l', v')"
      "radius_nm l = MAX_WEATHER_RADIUS_NM" "b = bRet l'"
      "w' = (case r' of Inl e \<Rightarrow> LOG_MSG (ERR_FETCH_EXCEPTION e) v' | Inr u \<Rightarrow> v')"
proof -
  let ?l0 = "\<lparr>radius_nm = radius, readBuf = [], bRet = False, no_revoke = False, nperf = 0\<rparr>"
  obtain r l v where b1: "WeatherFetch_body env lat lon ?l0 w = (r, l, v)"
    by (cases "WeatherFetch_body env lat lon ?l0 w")
  show ?thesis
  proof (cases "r = Inr True")
    case False
    with run init b1 have "b = bRet l"
      "w' = (case r of Inl e \<Rightarrow> LOG_MSG (ERR_FETCH_EXCEPTION e) v | Inr u \<Rightarrow> v)"
      by (auto simp: WeatherFetch_def WeatherFetch_loop_unroll split: sum.splits)
    with b1 False that(1) show ?thesis by blast
  next
    case True
    obtain r' l' v' where b2: "WeatherFetch_body env lat lon l v = (r', l', v')"
      by (cases "WeatherFetch_body env lat lon l v")
    from b1 True have "radius_nm l = MAX_WEATHER_RADIUS_NM"
      using WeatherFetch_body_repeat by blast
    moreover from run init b1 b2 True have "b = bRet l'"
      "w' = (case r' of Inl e \<Rightarrow> LOG_MSG (ERR_FETCH_EXCEPTION e) v' | Inr u \<Rightarrow> v')"
      by (auto simp: WeatherFetch_def WeatherFetch_loop_unroll split: sum.splits)
    ultimately show ?thesis using b1 b2 True that(2) by blast
  qed
qed

text \<open>
  The requests a fetch performs and the buffers it hands to the interpreter, in the
  vocabulary of requests. \<open>rq\<close> is the first request, \<open>rw\<close> the widened one.
\<close>

lemma WeatherFetch_trace:
  assumes run: "WeatherFetch env lat lon radius w = (b, w')"
    and init: "curl_easy_init_ok env"
    and rq: "rq = \<lparr>req_radius_nm = radius, req_lon = lon, req_lat = lat,
               req_no_revoke = False\<rparr>"
    and rw: "rw = \<lparr>req_radius_nm = MAX_WEATHER_RADIUS_NM, req_lon = lon, req_lat = lat,
               req_no_revoke = revocation_retry env 0 rq\<rparr>"
  shows "performed w' = performed w @ performs env 0 rq @
           (if http_200 (answer env 0 rq) \<and>
               fst (WeatherProcessResponse env (received env 0 rq) w) = Inr False \<and>
               radius < MAX_WEATHER_RADIUS_NM
            then performs env (length (performs env 0 rq)) rw else [])"
    and "processed w' = processed w @
           (if http_200 (answer env 0 rq) then
              received env 0 rq #
              (if fst (WeatherProcessResponse env (received env 0 rq) w) = Inr False \<and>
                  radius < MAX_WEATHER_RADIUS_NM \<and>
                  http_200 (answer env (length (performs env 0 rq)) rw)
               then [received env 0 rq @ received env (length (performs env 0 rq)) rw]
               else [])
            else [])"
proof -
  let ?l0 = "\<lparr>radius_nm = radius, readBuf = [], bRet = False, no_revoke = False, nperf = 0\<rparr>"
  let ?n = "length (performs env 0 rq)"
  let ?b = "received env 0 rq"
  let ?widen = "http_200 (answer env 0 rq) \<and>
               fst (WeatherProcessResponse env ?b w) = Inr False \<and>
               radius < MAX_WEATHER_RADIUS_NM"
  have rq0: "rq = \<lparr>req_radius_nm = radius_nm ?l0, req_lon = lon, req_lat = lat,
                req_no_revoke = no_revoke ?l0\<rparr>"
    and b0: "?b = readBuf ?l0 @ received env (nperf ?l0) rq"
    by (simp_all add: rq)
  have both: "performed w' = performed w @ performs env 0 rq @
           (if ?widen then performs env ?n rw else []) \<and>
         processed w' = processed w @
           (if http_200 (answer env 0 rq) then
              ?b # (if fst (WeatherProcessResponse env ?b w) = Inr False \<and>
                  radius < MAX_WEATHER_RADIUS_NM \<and> http_200 (answer env ?n rw)
               then [?b @ received env ?n rw] else [])
            else [])"
  proof (rule WeatherFetch_passes [OF run init])
    fix r l v
    assume b1: "WeatherFetch_body env lat lon ?l0 w = (r, l, v)" and nr: "r \<noteq> Inr True"
      and w': "w' = (case r of Inl e \<Rightarrow> LOG_MSG (ERR_FETCH_EXCEPTION e) v | Inr u \<Rightarrow> v)"
    note p = WeatherFetch_body_pass [OF b1 rq0 b0]
    from p(3) [of w] nr have nw: "\<not> ?widen"
      by (auto split: if_splits sum.splits)
    from w' have same: "performed w' = performed v" "processed w' = processed v"
      by (cases r; simp add: LOG_MSG_def)+
    from p(1,2) nw show ?thesis
      unfolding same by auto
  next
    fix l v r' l' v'
    assume b1: "WeatherFetch_body env lat lon ?l0 w = (Inr True, l, v)"
      and b2: "WeatherFetch_body env lat lon l v = (r', l', v')"
      and rad: "radius_nm l = MAX_WEATHER_RADIUS_NM"
      and w': "w' = (case r' of Inl e \<Rightarrow> LOG_MSG (ERR_FETCH_EXCEPTION e) v' | Inr u \<Rightarrow> v')"
    note p = WeatherFetch_body_pass [OF b1 rq0 b0]
    from p(3) [of w] have wd: "?widen"
      by (auto split: if_splits sum.splits)
    from p(4,5,6) rad have rw1: "rw = \<lparr>req_radius_nm = radius_nm l, req_lon = lon,
        req_lat = lat, req_no_revoke = no_revoke l\<rparr>"
      and b1': "?b @ received env ?n rw = readBuf l @ received env (nperf l) rw"
      and n: "nperf l = ?n"
      by (simp_all add: rw)
    note q = WeatherFetch_body_pass [OF b2 rw1 b1']
    from w' have same: "performed w' = performed v'" "processed w' = processed v'"
      by (cases r'; simp add: LOG_MSG_def)+
    from p(1,2) q(1,2) wd n show ?thesis
      unfolding same by simp
  qed
  from both show "performed w' = performed w @ performs env 0 rq @
           (if ?widen then performs env ?n rw else [])" by blast
  from both show "processed w' = processed w @
           (if http_200 (answer env 0 rq) then
              ?b # (if fst (WeatherProcessResponse env ?b w) = Inr False \<and>
                  radius < MAX_WEATHER_RADIUS_NM \<and> http_200 (answer env ?n rw)
               then [?b @ received env ?n rw] else [])
            else [])" by blast
qed

text \<open>What the sink holds after a fetch that returns \<^verbatim>\<open>true\<close>.\<close>

lemma WeatherFetch_written:
  assumes run: "WeatherFetch env lat lon radius w = (b, w')" and b: "b"
  shows "weather w' = weather (snd (WeatherProcessResponse env (last (processed w')) w0))"
proof -
  from run b have init: "curl_easy_init_ok env"
    by (auto simp: WeatherFetch_def split: if_splits)
  let ?l0 = "\<lparr>radius_nm = radius, readBuf = [], bRet = False, no_revoke = False, nperf = 0\<rparr>"
  have nb0: "\<not> bRet ?l0" by simp
  show ?thesis
  proof (rule WeatherFetch_passes [OF run init])
    fix r l v
    assume b1: "WeatherFetch_body env lat lon ?l0 w = (r, l, v)" and bl: "b = bRet l"
      and w': "w' = (case r of Inl e \<Rightarrow> LOG_MSG (ERR_FETCH_EXCEPTION e) v | Inr u \<Rightarrow> v)"
    from bl b have "bRet l" by simp
    note wr = WeatherFetch_body_written [OF b1 nb0 this]
    from wr(3) w' have "w' = v" by simp
    with wr(1) [of w0] wr(2) show ?thesis by simp
  next
    fix l v r' l' v'
    assume b1: "WeatherFetch_body env lat lon ?l0 w = (Inr True, l, v)"
      and b2: "WeatherFetch_body env lat lon l v = (r', l', v')"
      and bl: "b = bRet l'"
      and w': "w' = (case r' of Inl e \<Rightarrow> LOG_MSG (ERR_FETCH_EXCEPTION e) v' | Inr u \<Rightarrow> v')"
    have nb1: "\<not> bRet l"
    proof
      assume "bRet l"
      from WeatherFetch_body_written(3) [OF b1 nb0 this] show False by simp
    qed
    from bl b have "bRet l'" by simp
    note wr = WeatherFetch_body_written [OF b2 nb1 this]
    from wr(3) w' have "w' = v'" by simp
    with wr(1) [of w0] wr(2) show ?thesis by simp
  qed
qed

text \<open>
  C7. For every fetch, \<^verbatim>\<open>SetWeather\<close> is called once when \<^verbatim>\<open>WeatherFetch\<close> returns \<^verbatim>\<open>true\<close>
  and not at all when it returns \<^verbatim>\<open>false\<close>, and then the sink holds what it held before.
  The fetch returns \<^verbatim>\<open>true\<close> exactly when the interpreter's outcome on one of the buffers
  it was given is success, and the sink then holds what the interpreter made of the last
  buffer, the one that decides the outcome. The interpreter is given a buffer only after
  an answer with HTTP 200: when \<^verbatim>\<open>curl_easy_init\<close> fails, or the first request ends in a
  transport error or another HTTP status, nothing is interpreted, the fetch returns \<^verbatim>\<open>false\<close> and the sink is left
  alone; when the widened request ends so, only the first buffer was interpreted (no
  weather, or the loop would have ended). An outcome without weather, an error body and
  a caught exception are outcomes of the interpreter other than success.
  \<open>rq\<close> is the first request, \<open>rw\<close> the widened one.
\<close>

theorem WeatherFetch_sink_frame:
  assumes run: "WeatherFetch env lat lon radius w = (b, w')"
    and rq: "rq = \<lparr>req_radius_nm = radius, req_lon = lon, req_lat = lat,
               req_no_revoke = False\<rparr>"
    and rw: "rw = \<lparr>req_radius_nm = MAX_WEATHER_RADIUS_NM, req_lon = lon, req_lat = lat,
               req_no_revoke = revocation_retry env 0 rq\<rparr>"
  shows "setWeatherCalls w' = setWeatherCalls w + (if b then 1 else 0) \<and>
         (\<not> b \<longrightarrow> weather w' = weather w) \<and>
         (b \<longrightarrow> weather w' =
                weather (snd (WeatherProcessResponse env (last (processed w')) w))) \<and>
         (b \<longleftrightarrow> (\<exists>buf\<in>set (drop (length (processed w)) (processed w')).
                  fst (WeatherProcessResponse env buf w) = Inr True)) \<and>
         processed w' = processed w @
           (if curl_easy_init_ok env \<and> http_200 (answer env 0 rq) then
              received env 0 rq #
              (if fst (WeatherProcessResponse env (received env 0 rq) w) = Inr False \<and>
                  radius < MAX_WEATHER_RADIUS_NM \<and>
                  http_200 (answer env (length (performs env 0 rq)) rw)
               then [received env 0 rq @ received env (length (performs env 0 rq)) rw]
               else [])
            else []) \<and>
         (\<not> curl_easy_init_ok env \<or> \<not> http_200 (answer env 0 rq) \<longrightarrow>
            \<not> b \<and> processed w' = processed w \<and> weather w' = weather w \<and>
            setWeatherCalls w' = setWeatherCalls w) \<and>
         (curl_easy_init_ok env \<and> http_200 (answer env 0 rq) \<and>
          \<not> http_200 (answer env (length (performs env 0 rq)) rw) \<longrightarrow>
            processed w' = processed w @ [received env 0 rq] \<and>
            (b \<longleftrightarrow> fst (WeatherProcessResponse env (received env 0 rq) w) = Inr True)) \<and>
         (processed w' \<noteq> processed w \<longrightarrow>
            (b \<longleftrightarrow> fst (WeatherProcessResponse env (last (processed w')) w) = Inr True))"
proof -
  let ?n = "length (performs env 0 rq)"
  let ?b = "received env 0 rq"
  from WeatherFetch_outcome [OF run, of w] obtain bufs where
    p: "processed w' = processed w @ bufs"
    and t: "b \<longleftrightarrow> (\<exists>buf\<in>set bufs. fst (WeatherProcessResponse env buf w) = Inr True)"
    and c: "setWeatherCalls w' = setWeatherCalls w + (if b then 1 else 0)"
    and k: "\<not> b \<longrightarrow> weather w' = weather w"
    by blast
  have wr: "b \<longrightarrow> weather w' =
                weather (snd (WeatherProcessResponse env (last (processed w')) w))"
    using WeatherFetch_written [OF run] by blast
  have tr: "processed w' = processed w @
           (if curl_easy_init_ok env \<and> http_200 (answer env 0 rq) then
              ?b # (if fst (WeatherProcessResponse env ?b w) = Inr False \<and>
                  radius < MAX_WEATHER_RADIUS_NM \<and> http_200 (answer env ?n rw)
               then [?b @ received env ?n rw] else [])
            else [])"
  proof (cases "curl_easy_init_ok env")
    case True
    from WeatherFetch_trace(2) [OF run True rq rw] True show ?thesis by simp
  next
    case False
    with run show ?thesis by (auto simp: WeatherFetch_def LOG_MSG_def)
  qed
  have t': "b \<longleftrightarrow> (\<exists>buf\<in>set (drop (length (processed w)) (processed w')).
                  fst (WeatherProcessResponse env buf w) = Inr True)"
    using t p by simp
  have e1: "\<not> b \<and> processed w' = processed w \<and> weather w' = weather w \<and>
            setWeatherCalls w' = setWeatherCalls w"
    if "\<not> curl_easy_init_ok env \<or> \<not> http_200 (answer env 0 rq)"
  proof -
    from that tr have "processed w' = processed w" by auto
    with p have "bufs = []" by simp
    with t have "\<not> b" by simp
    with c k \<open>processed w' = processed w\<close> show ?thesis by simp
  qed
  have e2: "processed w' = processed w @ [?b] \<and>
            (b \<longleftrightarrow> fst (WeatherProcessResponse env ?b w) = Inr True)"
    if "curl_easy_init_ok env \<and> http_200 (answer env 0 rq) \<and> \<not> http_200 (answer env ?n rw)"
  proof -
    from that tr have "processed w' = processed w @ [?b]" by simp
    moreover from this p have "bufs = [?b]" by simp
    ultimately show ?thesis using t by simp
  qed
  have e3: "b \<longleftrightarrow> fst (WeatherProcessResponse env (last (processed w')) w) = Inr True"
    if "processed w' \<noteq> processed w"
  proof -
    from that tr p have "bufs = [?b] \<or>
        (bufs = [?b, ?b @ received env ?n rw] \<and>
         fst (WeatherProcessResponse env ?b w) = Inr False)"
      by (auto split: if_splits)
    then show ?thesis
    proof
      assume "bufs = [?b]"
      with t p show ?thesis by simp
    next
      assume "bufs = [?b, ?b @ received env ?n rw] \<and>
         fst (WeatherProcessResponse env ?b w) = Inr False"
      with t p show ?thesis by simp
    qed
  qed
  from c k wr t' tr e1 e2 e3 show ?thesis by blast
qed

theorem WeatherFetch_sink_frame_witness:
  "WeatherFetch (sample_env [http_response 500 ''<altim_in_hg>29.9</altim_in_hg>'']) 47 11 25 world0 =
     (False, world0\<lparr>logged := [ERR_WEATHER_REQU 500],
        performed := [\<lparr>req_radius_nm = 25, req_lon = 11, req_lat = 47, req_no_revoke = False\<rparr>]\<rparr>) \<and>
   fst (WeatherFetch (sample_env [http_response 200 ''<altim_in_hg>29.9</altim_in_hg>'']) 47 11 25 world0) \<and>
   setWeatherCalls (snd (WeatherFetch
      (sample_env [http_response 200 ''<altim_in_hg>29.9</altim_in_hg>'']) 47 11 25 world0)) = 1 \<and>
   processed (snd (WeatherFetch
      (sample_env [http_response 200 ''<altim_in_hg>29.9</altim_in_hg>'']) 47 11 25 world0)) =
     [''<altim_in_hg>29.9</altim_in_hg>'']"
proof -
  let ?bad = "WeatherFetch (sample_env [http_response 500 ''<altim_in_hg>29.9</altim_in_hg>'']) 47 11 25 world0"
  let ?good = "WeatherFetch (sample_env [http_response 200 ''<altim_in_hg>29.9</altim_in_hg>'']) 47 11 25 world0"
  let ?w' = "world0\<lparr>logged := [ERR_WEATHER_REQU 500],
        performed := [\<lparr>req_radius_nm = 25, req_lon = 11, req_lat = 47, req_no_revoke = False\<rparr>]\<rparr>"
  have bad: "?bad = (False, ?w')"
    by (simp add: sample_defs interpreter_defs worker_defs)
  have good: "fst ?good"
    by (simp add: sample_defs interpreter_defs worker_defs)
  from WeatherFetch_sink_frame [OF bad refl refl] have "weather ?w' = weather world0" by simp
  moreover from WeatherFetch_sink_frame [OF surjective_pairing [of ?good] refl refl] good
  have "setWeatherCalls (snd ?good) = 1 \<and>
        processed (snd ?good) = [''<altim_in_hg>29.9</altim_in_hg>'']"
    by (simp add: sample_defs request_defs interpreter_defs CURLE_OK_def HTTP_OK_def
          MAX_WEATHER_RADIUS_NM_def)
  ultimately show ?thesis using bad good by simp
qed

text \<open>
  C3. For every fetch whose first request is answered with HTTP 200 (at once, or when it
  is performed again after a revocation error) and in which the interpreter finds no
  weather: if the starting radius is below the maximum, the worker issues exactly one
  further request, with the maximum radius, and none beyond that, whatever the retry
  yields; if the radius is already at the maximum, the first request is the only one.
  A request is what it asks for (radius, longitude, latitude): one that is performed
  again with the revocation check disabled is the same request. The second conjunct
  gives the calls of \<^verbatim>\<open>curl_easy_perform\<close> one by one.
\<close>

theorem WeatherFetch_widening_bounded:
  assumes init: "curl_easy_init_ok env"
    and rq: "rq = \<lparr>req_radius_nm = radius, req_lon = lon, req_lat = lat,
               req_no_revoke = False\<rparr>"
    and ok: "http_200 (answer env 0 rq)"
    and nf: "fst (WeatherProcessResponse env (received env 0 rq) w) = Inr False"
    and rw: "rw = \<lparr>req_radius_nm = MAX_WEATHER_RADIUS_NM, req_lon = lon, req_lat = lat,
               req_no_revoke = revocation_retry env 0 rq\<rparr>"
    and run: "WeatherFetch env lat lon radius w = (b, w')"
  shows "remdups_adj (map req_values (drop (length (performed w)) (performed w'))) =
           (radius, lon, lat) #
           (if radius < MAX_WEATHER_RADIUS_NM then [(MAX_WEATHER_RADIUS_NM, lon, lat)] else []) \<and>
         performed w' = performed w @ performs env 0 rq @
           (if radius < MAX_WEATHER_RADIUS_NM
            then performs env (length (performs env 0 rq)) rw else [])"
proof -
  let ?n = "length (performs env 0 rq)"
  from WeatherFetch_trace(1) [OF run init rq rw] ok nf
  have perf: "performed w' = performed w @ performs env 0 rq @
           (if radius < MAX_WEATHER_RADIUS_NM then performs env ?n rw else [])"
    by simp
  have v: "remdups_adj (map req_values (performs env k r)) = [req_values r]" for k r
    by (simp add: performs_def req_values_def)
  have m: "map req_values (performs env k r) =
      (if revocation_retry env k r then [req_values r, req_values r] else [req_values r])"
    for k r
    by (simp add: performs_def req_values_def)
  have "remdups_adj (map req_values (performs env 0 rq @
           (if radius < MAX_WEATHER_RADIUS_NM then performs env ?n rw else []))) =
        req_values rq #
        (if radius < MAX_WEATHER_RADIUS_NM then [req_values rw] else [])"
  proof (cases "radius < MAX_WEATHER_RADIUS_NM")
    case False
    then show ?thesis by (simp add: v)
  next
    case True
    then have "req_values rq \<noteq> req_values rw"
      by (simp add: req_values_def rq rw)
    with True show ?thesis
      by (simp add: m)
  qed
  with perf show ?thesis
    by (simp add: req_values_def rq rw)
qed

theorem WeatherFetch_widening_bounded_witness:
  "remdups_adj (map req_values (performed (snd (WeatherFetch
      (sample_env [http_response 200 ''<response><data/></response>'',
                   transport_error 35 ''schannel: certificate revocation check failed'',
                   http_response 200 ''<response><data/></response>''])
      47 11 25 world0)))) = [(25, 11, 47), (100, 11, 47)] \<and>
   performed (snd (WeatherFetch
      (sample_env [http_response 200 ''<response><data/></response>'',
                   transport_error 35 ''schannel: certificate revocation check failed'',
                   http_response 200 ''<response><data/></response>''])
      47 11 25 world0)) =
   [\<lparr>req_radius_nm = 25, req_lon = 11, req_lat = 47, req_no_revoke = False\<rparr>,
    \<lparr>req_radius_nm = 100, req_lon = 11, req_lat = 47, req_no_revoke = False\<rparr>,
    \<lparr>req_radius_nm = 100, req_lon = 11, req_lat = 47, req_no_revoke = True\<rparr>]"
proof -
  let ?env = "sample_env [http_response 200 ''<response><data/></response>'',
                   transport_error 35 ''schannel: certificate revocation check failed'',
                   http_response 200 ''<response><data/></response>'']"
  let ?rq = "\<lparr>req_radius_nm = 25, req_lon = 11, req_lat = 47, req_no_revoke = False\<rparr>"
  let ?run = "WeatherFetch ?env 47 11 25 world0"
  have init: "curl_easy_init_ok ?env"
    by (simp add: sample_defs)
  have ok: "http_200 (answer ?env 0 ?rq)"
    by (simp add: sample_defs request_defs CURLE_OK_def HTTP_OK_def str_find_def c_str_def)
  have nf: "fst (WeatherProcessResponse ?env (received ?env 0 ?rq) world0) = Inr False"
    by (simp add: sample_defs request_defs interpreter_defs CURLE_OK_def)
  from WeatherFetch_widening_bounded [OF init refl ok nf refl surjective_pairing [of ?run]]
  show ?thesis
    by (simp add: sample_defs request_defs CURLE_OK_def MAX_WEATHER_RADIUS_NM_def
          str_find_def c_str_def)
qed

text \<open>
  C4 (as the code has it). For every fetch: the widening retry is issued exactly when
  the first request is answered with HTTP 200, the interpreter returns \<^verbatim>\<open>false\<close> on its
  body and the radius is below the maximum; after a transport error, another HTTP
  status, a success or an exception nothing more is requested. The interpreter returns
  \<^verbatim>\<open>false\<close> for a body without weather and for an error body alike: when the first
  \<^verbatim>\<open><error>\<close> of the first body holds a non-empty text \<open>X\<close>, the worker logs the error (\<open>X\<close>
  as a C string), then logs that no weather was found, widens if the radius is below the
  maximum, and the fetch returns \<^verbatim>\<open>false\<close>.
\<close>

theorem WeatherFetch_error_body_retries:
  assumes init: "curl_easy_init_ok env"
    and rq: "rq = \<lparr>req_radius_nm = radius, req_lon = lon, req_lat = lat,
               req_no_revoke = False\<rparr>"
    and rw: "rw = \<lparr>req_radius_nm = MAX_WEATHER_RADIUS_NM, req_lon = lon, req_lat = lat,
               req_no_revoke = revocation_retry env 0 rq\<rparr>"
    and run: "WeatherFetch env lat lon radius w = (b, w')"
  shows "performed w' = performed w @ performs env 0 rq @
           (if http_200 (answer env 0 rq) \<and>
               fst (WeatherProcessResponse env (received env 0 rq) w) = Inr False \<and>
               radius < MAX_WEATHER_RADIUS_NM
            then performs env (length (performs env 0 rq)) rw else []) \<and>
         (http_200 (answer env 0 rq) \<and>
          received env 0 rq = pre @ ''<error>'' @ X @ CHR ''<'' # post \<and>
          (\<forall>i<length pre. \<not> occurs_at (received env 0 rq) ''<error>'' i) \<and>
          X \<noteq> [] \<and> CHR ''<'' \<notin> set X \<longrightarrow>
            fst (WeatherProcessResponse env (received env 0 rq) w) = Inr False \<and>
            performed w' = performed w @ performs env 0 rq @
              (if radius < MAX_WEATHER_RADIUS_NM
               then performs env (length (performs env 0 rq)) rw else []) \<and>
            (\<exists>m. logged w' = logged w @
                   (if revocation_retry env 0 rq then [ERR_CURL_DISABLE_REV_QU] else []) @
                   [ERR_WEATHER_ERROR (c_str X), WARN_NO_WEATHER radius] @ m) \<and>
            \<not> b)"
proof -
  let ?n = "length (performs env 0 rq)"
  let ?b = "received env 0 rq"
  let ?l0 = "\<lparr>radius_nm = radius, readBuf = [], bRet = False, no_revoke = False, nperf = 0\<rparr>"
  note perf = WeatherFetch_trace(1) [OF run init rq rw]
  note proc = WeatherFetch_trace(2) [OF run init rq rw]
  have "fst (WeatherProcessResponse env ?b w) = Inr False \<and>
        performed w' = performed w @ performs env 0 rq @
          (if radius < MAX_WEATHER_RADIUS_NM then performs env ?n rw else []) \<and>
        (\<exists>m. logged w' = logged w @
               (if revocation_retry env 0 rq then [ERR_CURL_DISABLE_REV_QU] else []) @
               [ERR_WEATHER_ERROR (c_str X), WARN_NO_WEATHER radius] @ m) \<and>
        \<not> b"
    if ok: "http_200 (answer env 0 rq)"
      and body: "?b = pre @ ''<error>'' @ X @ CHR ''<'' # post"
      and first: "\<forall>i<length pre. \<not> occurs_at ?b ''<error>'' i"
      and X: "X \<noteq> []" "CHR ''<'' \<notin> set X"
  proof -
    have err: "WeatherProcessResponse env (?b @ d) v =
        (Inr False,
         LOG_MSG (ERR_WEATHER_ERROR (c_str X)) (v\<lparr>processed := processed v @ [?b @ d]\<rparr>))"
      for d and v :: "'a world"
      using WeatherProcessResponse_error_append [OF body first X] .
    from err [of "[]" w] have nf: "fst (WeatherProcessResponse env ?b w) = Inr False"
      by simp
    from perf ok nf have p: "performed w' = performed w @ performs env 0 rq @
          (if radius < MAX_WEATHER_RADIUS_NM then performs env ?n rw else [])"
      by simp
    from WeatherFetch_outcome [OF run, of w] obtain bufs where
      pb: "processed w' = processed w @ bufs"
      and t: "b \<longleftrightarrow> (\<exists>buf\<in>set bufs. fst (WeatherProcessResponse env buf w) = Inr True)"
      by blast
    from proc ok pb have "set bufs \<subseteq> {?b @ [], ?b @ received env ?n rw}"
      by (auto split: if_splits)
    then have "\<forall>buf\<in>set bufs. fst (WeatherProcessResponse env buf w) = Inr False"
      using err [of "[]" w] err [of "received env ?n rw" w] by auto
    with t have nb: "\<not> b" by auto
    have lg: "\<exists>m. logged w' = logged w @
               (if revocation_retry env 0 rq then [ERR_CURL_DISABLE_REV_QU] else []) @
               [ERR_WEATHER_ERROR (c_str X), WARN_NO_WEATHER radius] @ m"
    proof -
      have rq0: "rq = \<lparr>req_radius_nm = radius_nm ?l0, req_lon = lon, req_lat = lat,
                req_no_revoke = no_revoke ?l0\<rparr>"
        by (simp add: rq)
      have ok0: "http_200 (answer env (nperf ?l0) rq)"
        using ok by simp
      have gx: "GetXMLValue (readBuf ?l0 @ received env (nperf ?l0) rq) ''<error>'' 0 =
          (X, length pre + 7 + length X)"
        using GetXMLValue_error_append [OF body first X(2), of "[]"] by simp
      have first_log: "logged v = logged w @
             (if revocation_retry env 0 rq then [ERR_CURL_DISABLE_REV_QU] else []) @
             [ERR_WEATHER_ERROR (c_str X), WARN_NO_WEATHER radius]"
        if "WeatherFetch_body env lat lon ?l0 w = (r, l, v)" for r l v
        using WeatherFetch_body_error_logged [OF that rq0 ok0 gx X(1)] by simp
      show ?thesis
      proof (rule WeatherFetch_passes [OF run init])
        fix r l v
        assume b1: "WeatherFetch_body env lat lon ?l0 w = (r, l, v)"
          and w': "w' = (case r of Inl e \<Rightarrow> LOG_MSG (ERR_FETCH_EXCEPTION e) v | Inr u \<Rightarrow> v)"
        from w' have "\<exists>m. logged w' = logged v @ m"
          by (cases r) (simp_all add: LOG_MSG_def)
        with first_log [OF b1] show ?thesis by auto
      next
        fix l v r' l' v'
        assume b1: "WeatherFetch_body env lat lon ?l0 w = (Inr True, l, v)"
          and b2: "WeatherFetch_body env lat lon l v = (r', l', v')"
          and w': "w' = (case r' of Inl e \<Rightarrow> LOG_MSG (ERR_FETCH_EXCEPTION e) v' | Inr u \<Rightarrow> v')"
        from WeatherFetch_body_logged [OF b2] obtain m where "logged v' = logged v @ m"
          by blast
        moreover from w' have "\<exists>m. logged w' = logged v' @ m"
          by (cases r') (simp_all add: LOG_MSG_def)
        ultimately have "\<exists>m. logged w' = logged v @ m" by auto
        with first_log [OF b1] show ?thesis by auto
      qed
    qed
    from nf p lg nb show ?thesis by blast
  qed
  with perf show ?thesis by blast
qed

theorem WeatherFetch_error_body_retries_witness:
  "performed (snd (WeatherFetch
      (sample_env [http_response 200 ''<errors><error>boom</error></errors>'',
                   http_response 200 ''<altim_in_hg>29.9</altim_in_hg>''])
      47 11 25 world0)) =
     [\<lparr>req_radius_nm = 25, req_lon = 11, req_lat = 47, req_no_revoke = False\<rparr>,
      \<lparr>req_radius_nm = 100, req_lon = 11, req_lat = 47, req_no_revoke = False\<rparr>] \<and>
   \<not> fst (WeatherFetch
      (sample_env [http_response 200 ''<errors><error>boom</error></errors>'',
                   http_response 200 ''<altim_in_hg>29.9</altim_in_hg>''])
      47 11 25 world0) \<and>
   (\<exists>m. logged (snd (WeatherFetch
      (sample_env [http_response 200 ''<errors><error>boom</error></errors>'',
                   http_response 200 ''<altim_in_hg>29.9</altim_in_hg>''])
      47 11 25 world0)) = [ERR_WEATHER_ERROR ''boom'', WARN_NO_WEATHER 25] @ m)"
proof -
  let ?body = "''<errors><error>boom</error></errors>''"
  let ?env = "sample_env [http_response 200 ?body,
                   http_response 200 ''<altim_in_hg>29.9</altim_in_hg>'']"
  let ?rq = "\<lparr>req_radius_nm = 25, req_lon = 11, req_lat = 47, req_no_revoke = False\<rparr>"
  let ?run = "WeatherFetch ?env 47 11 25 world0"
  have init: "curl_easy_init_ok ?env"
    by (simp add: sample_defs)
  have rec: "received ?env 0 ?rq = ?body"
    by (simp add: sample_defs request_defs CURLE_OK_def)
  have ok: "http_200 (answer ?env 0 ?rq)"
    by (simp add: sample_defs request_defs CURLE_OK_def HTTP_OK_def)
  have nr: "\<not> revocation_retry ?env 0 ?rq"
    by (simp add: sample_defs request_defs CURLE_OK_def)
  have "str_find ?body ''<error>'' 0 = Some 8"
    by (simp add: str_find_def)
  then have first: "\<forall>i<length ''<errors>''. \<not> occurs_at ?body ''<error>'' i"
    by (simp add: str_find_Some_iff)
  have hyp: "http_200 (answer ?env 0 ?rq) \<and>
          received ?env 0 ?rq = ''<errors>'' @ ''<error>'' @ ''boom'' @
             CHR ''<'' # ''/error></errors>'' \<and>
          (\<forall>i<length ''<errors>''. \<not> occurs_at (received ?env 0 ?rq) ''<error>'' i) \<and>
          ''boom'' \<noteq> [] \<and> CHR ''<'' \<notin> set ''boom''"
    using ok first by (simp add: rec)
  from WeatherFetch_error_body_retries [OF init refl refl surjective_pairing [of ?run],
      where pre = "''<errors>''" and X = "''boom''" and post = "''/error></errors>''"] hyp
  have "performed (snd ?run) = performed world0 @ performs ?env 0 ?rq @
              (if (25::real) < MAX_WEATHER_RADIUS_NM
               then performs ?env (length (performs ?env 0 ?rq))
                  \<lparr>req_radius_nm = MAX_WEATHER_RADIUS_NM, req_lon = 11, req_lat = 47,
                    req_no_revoke = revocation_retry ?env 0 ?rq\<rparr> else [])"
    and "\<exists>m. logged (snd ?run) = logged world0 @
                   (if revocation_retry ?env 0 ?rq then [ERR_CURL_DISABLE_REV_QU] else []) @
                   [ERR_WEATHER_ERROR (c_str ''boom''), WARN_NO_WEATHER 25] @ m"
    and "\<not> fst ?run"
    by blast+
  then show ?thesis
    using nr by (simp add: sample_defs request_defs CURLE_OK_def MAX_WEATHER_RADIUS_NM_def
                   c_str_def)
qed

text \<open>
  C4 as stated has the worker stop after an error body. With radius 25 the error is
  logged and the request is repeated with radius 100.
\<close>
theorem WeatherFetch_error_body_widens:
  "performed (snd (WeatherFetch
      (sample_env [http_response 200 ''<errors><error>boom</error></errors>'',
                   http_response 200 ''<altim_in_hg>29.9</altim_in_hg>''])
      47 11 25 world0)) =
     [\<lparr>req_radius_nm = 25, req_lon = 11, req_lat = 47, req_no_revoke = False\<rparr>,
      \<lparr>req_radius_nm = 100, req_lon = 11, req_lat = 47, req_no_revoke = False\<rparr>] \<and>
   logged (snd (WeatherFetch
      (sample_env [http_response 200 ''<errors><error>boom</error></errors>'',
                   http_response 200 ''<altim_in_hg>29.9</altim_in_hg>''])
      47 11 25 world0)) =
     [ERR_WEATHER_ERROR ''boom'', WARN_NO_WEATHER 25,
      ERR_WEATHER_ERROR ''boom'', WARN_NO_WEATHER 100]"
  by (simp add: sample_defs interpreter_defs worker_defs)

text \<open>
  C8 (as the code has it). For every fetch whose first request is answered with HTTP
  200, in which the interpreter finds no weather and the radius is below the maximum:
  the first buffer handed to the interpreter is what was received for the first
  request; when the widened request is answered with HTTP 200 the interpreter is called
  exactly once more, on the first buffer followed by what was received for the widened
  request, and otherwise not again. The second buffer is the second body alone only
  when the first body is empty.
\<close>

theorem WeatherFetch_retry_buffer:
  assumes init: "curl_easy_init_ok env"
    and lt: "radius < MAX_WEATHER_RADIUS_NM"
    and rq: "rq = \<lparr>req_radius_nm = radius, req_lon = lon, req_lat = lat,
               req_no_revoke = False\<rparr>"
    and ok: "http_200 (answer env 0 rq)"
    and nf: "fst (WeatherProcessResponse env (received env 0 rq) w) = Inr False"
    and rw: "rw = \<lparr>req_radius_nm = MAX_WEATHER_RADIUS_NM, req_lon = lon, req_lat = lat,
               req_no_revoke = revocation_retry env 0 rq\<rparr>"
    and run: "WeatherFetch env lat lon radius w = (b, w')"
  shows "processed w' = processed w @
           received env 0 rq #
           (if http_200 (answer env (length (performs env 0 rq)) rw)
            then [received env 0 rq @ received env (length (performs env 0 rq)) rw]
            else []) \<and>
         (received env 0 rq \<noteq> [] \<longrightarrow>
            received env 0 rq @ received env (length (performs env 0 rq)) rw \<noteq>
            received env (length (performs env 0 rq)) rw)"
  using WeatherFetch_trace(2) [OF run init rq rw] lt ok nf by simp

theorem WeatherFetch_retry_buffer_witness:
  "processed (snd (WeatherFetch
      (sample_env [http_response 200 ''<response><data/></response>'',
                   http_response 200 ''<altim_in_hg>29.9</altim_in_hg>''])
      47 11 25 world0)) =
     [''<response><data/></response>'',
      ''<response><data/></response><altim_in_hg>29.9</altim_in_hg>'']"
proof -
  let ?env = "sample_env [http_response 200 ''<response><data/></response>'',
                   http_response 200 ''<altim_in_hg>29.9</altim_in_hg>'']"
  let ?rq = "\<lparr>req_radius_nm = 25, req_lon = 11, req_lat = 47, req_no_revoke = False\<rparr>"
  let ?run = "WeatherFetch ?env 47 11 25 world0"
  have init: "curl_easy_init_ok ?env"
    by (simp add: sample_defs)
  have lt: "(25::real) < MAX_WEATHER_RADIUS_NM"
    by (simp add: MAX_WEATHER_RADIUS_NM_def)
  have ok: "http_200 (answer ?env 0 ?rq)"
    by (simp add: sample_defs request_defs CURLE_OK_def HTTP_OK_def)
  have nf: "fst (WeatherProcessResponse ?env (received ?env 0 ?rq) world0) = Inr False"
    by (simp add: sample_defs request_defs interpreter_defs CURLE_OK_def)
  from WeatherFetch_retry_buffer [OF init lt refl ok nf refl surjective_pairing [of ?run]]
  show ?thesis
    by (simp add: sample_defs request_defs CURLE_OK_def HTTP_OK_def)
qed

text \<open>
  C8 as stated has the interpreter never receive the second body alone. When the first
  answer is an HTTP 200 with an empty body, the buffer of the retry is the second body.
\<close>

theorem WeatherFetch_retry_after_empty_body:
  "processed (snd (WeatherFetch
      (sample_env [http_response 200 [],
                   http_response 200 ''<altim_in_hg>29.9</altim_in_hg>''])
      47 11 25 world0)) = [[], ''<altim_in_hg>29.9</altim_in_hg>''] \<and>
   performed (snd (WeatherFetch
      (sample_env [http_response 200 [],
                   http_response 200 ''<altim_in_hg>29.9</altim_in_hg>''])
      47 11 25 world0)) =
     [\<lparr>req_radius_nm = 25, req_lon = 11, req_lat = 47, req_no_revoke = False\<rparr>,
      \<lparr>req_radius_nm = 100, req_lon = 11, req_lat = 47, req_no_revoke = False\<rparr>]"
  by (simp add: sample_defs interpreter_defs worker_defs)

text \<open>
  C10 (as the code has it). For every fetch and every buffer it hands to the
  interpreter (what has been received when a request is answered with HTTP 200): if the
  \<^verbatim>\<open><error>\<close> extraction yields nothing and the \<^verbatim>\<open><altim_in_hg>\<close> extraction that follows
  it, from the cursor the first one left, yields a non-empty text that \<^verbatim>\<open>std::stof\<close>
  rejects, then the conversion throws, the exception is caught and logged inside
  \<^verbatim>\<open>WeatherFetch\<close>, which returns \<^verbatim>\<open>false\<close>, and the sink is not written.
\<close>
theorem WeatherFetch_bad_pressure_contained:
  assumes run: "WeatherFetch env lat lon radius w = (b, w')"
    and buf: "buf \<in> set (drop (length (processed w)) (processed w'))"
    and err: "GetXMLValue buf ''<error>'' 0 = ([], p)"
    and alt: "GetXMLValue buf ''<altim_in_hg>'' p = (val, q)" "val \<noteq> []"
    and bad: "stof env val = Inl e"
  shows "fst (WeatherProcessResponse env buf w) = Inl e \<and> \<not> b \<and>
         last (logged w') = ERR_FETCH_EXCEPTION e \<and>
         weather w' = weather w \<and> setWeatherCalls w' = setWeatherCalls w"
proof -
  have raise: "fst (WeatherProcessResponse env buf w) = Inl e"
    using err alt bad by (simp add: WeatherProcessResponse_def)
  from WeatherFetch_outcome [OF run, of w] obtain bufs where
    p: "processed w' = processed w @ bufs"
    and x: "\<forall>buf\<in>set bufs. \<forall>e. fst (WeatherProcessResponse env buf w) = Inl e \<longrightarrow>
                \<not> b \<and> logged w' \<noteq> [] \<and> last (logged w') = ERR_FETCH_EXCEPTION e"
    and c: "setWeatherCalls w' = setWeatherCalls w + (if b then 1 else 0)"
    and k: "\<not> b \<longrightarrow> weather w' = weather w"
    by blast
  from buf p have "buf \<in> set bufs" by simp
  with x raise have "\<not> b" "last (logged w') = ERR_FETCH_EXCEPTION e" by blast+
  with raise c k show ?thesis by simp
qed

theorem WeatherFetch_bad_pressure_contained_witness:
  "fst (WeatherProcessResponse (sample_env [http_response 200 ''<altim_in_hg>abc</altim_in_hg>''])
          ''<altim_in_hg>abc</altim_in_hg>'' world0) = Inl invalid_argument \<and>
   WeatherFetch (sample_env [http_response 200 ''<altim_in_hg>abc</altim_in_hg>'']) 47 11 25 world0 =
     (False, world0\<lparr>logged := [ERR_FETCH_EXCEPTION invalid_argument],
        performed := [\<lparr>req_radius_nm = 25, req_lon = 11, req_lat = 47, req_no_revoke = False\<rparr>],
        processed := [''<altim_in_hg>abc</altim_in_hg>'']\<rparr>)"
proof -
  let ?body = "''<altim_in_hg>abc</altim_in_hg>''"
  let ?env = "sample_env [http_response 200 ?body]"
  let ?w' = "world0\<lparr>logged := [ERR_FETCH_EXCEPTION invalid_argument],
        performed := [\<lparr>req_radius_nm = 25, req_lon = 11, req_lat = 47, req_no_revoke = False\<rparr>],
        processed := [?body]\<rparr>"
  have run: "WeatherFetch ?env 47 11 25 world0 = (False, ?w')"
    by (simp add: sample_defs interpreter_defs worker_defs)
  have "fst (WeatherProcessResponse ?env ?body world0) = Inl invalid_argument \<and> \<not> False \<and>
         last (logged ?w') = ERR_FETCH_EXCEPTION invalid_argument \<and>
         weather ?w' = weather world0 \<and> setWeatherCalls ?w' = setWeatherCalls world0"
    by (rule WeatherFetch_bad_pressure_contained [OF run, where p = 0 and q = 16 and val = "''abc''"])
       (simp_all add: sample_defs GetXMLValue_def str_find_def substr_def)
  with run show ?thesis by simp
qed

text \<open>
  C10 as stated speaks of the first \<^verbatim>\<open><altim_in_hg>\<close> of the body. The interpreter reads
  the first one after the cursor that the \<^verbatim>\<open><error>\<close> extraction left: here the first
  pressure text \<^verbatim>\<open>abc\<close> is skipped, the second is converted, the fetch returns \<^verbatim>\<open>true\<close>
  and the sink is written.
\<close>

theorem WeatherFetch_first_pressure_skipped:
  "GetXMLValue ''<altim_in_hg>abc<error><altim_in_hg>29.9</altim_in_hg>'' ''<altim_in_hg>'' 0 =
     (''abc'', 16) \<and>
   stof_syntax ''abc'' = Inl invalid_argument \<and>
   fst (WeatherFetch
      (sample_env [http_response 200 ''<altim_in_hg>abc<error><altim_in_hg>29.9</altim_in_hg>''])
      47 11 25 world0) = True \<and>
   setWeatherCalls (snd (WeatherFetch
      (sample_env [http_response 200 ''<altim_in_hg>abc<error><altim_in_hg>29.9</altim_in_hg>''])
      47 11 25 world0)) = 1 \<and>
   logged (snd (WeatherFetch
      (sample_env [http_response 200 ''<altim_in_hg>abc<error><altim_in_hg>29.9</altim_in_hg>''])
      47 11 25 world0)) = []"
  by (simp add: sample_defs interpreter_defs worker_defs)

subsection \<open>The entry point\<close>

text \<open>
  C1. For every state of the coordinator in which \<^verbatim>\<open>futWeather\<close> holds a launched fetch
  whose poll does not report \<^verbatim>\<open>ready\<close>, and for every position (those that pass the
  latitude gate among them) and radius, \<^verbatim>\<open>WeatherUpdate\<close> returns \<^verbatim>\<open>false\<close> and leaves the
  state as it was: no worker is launched and the stored handle is unchanged.
\<close>

theorem WeatherUpdate_single_flight:
  assumes "futWeather st = Some f" and "fut_status f \<noteq> ready"
  shows "WeatherUpdate pos radius st = (False, st)"
  using assms by (simp add: WeatherUpdate_def in_flight_def)

theorem WeatherUpdate_single_flight_witness:
  "WeatherUpdate \<lparr>pos_lat = 47, pos_lon = 11\<rparr> 25
     \<lparr>futWeather = Some \<lparr>fut_task = \<lparr>t_lat = 46, t_lon = 10, t_radius_nm = 25\<rparr>,
                          fut_status = timeout\<rparr>,
      launched = [\<lparr>t_lat = 46, t_lon = 10, t_radius_nm = 25\<rparr>]\<rparr> =
   (False,
    \<lparr>futWeather = Some \<lparr>fut_task = \<lparr>t_lat = 46, t_lon = 10, t_radius_nm = 25\<rparr>,
                          fut_status = timeout\<rparr>,
      launched = [\<lparr>t_lat = 46, t_lon = 10, t_radius_nm = 25\<rparr>]\<rparr>)"
  by (rule WeatherUpdate_single_flight
        [where f = "\<lparr>fut_task = \<lparr>t_lat = 46, t_lon = 10, t_radius_nm = 25\<rparr>,
                     fut_status = timeout\<rparr>"]) simp_all

text \<open>
  C2 (as the code has it). For every position with latitude \<open>\<ge> 80\<close> and every radius,
  \<^verbatim>\<open>WeatherUpdate\<close> returns \<^verbatim>\<open>false\<close> and leaves the state as it was: no worker is launched,
  so no request is made.
\<close>

theorem WeatherUpdate_latitude_gate:
  assumes "pos_lat pos \<ge> 80"
  shows "WeatherUpdate pos radius st = (False, st)"
  using assms by (simp add: WeatherUpdate_def)

theorem WeatherUpdate_latitude_gate_witness:
  "WeatherUpdate \<lparr>pos_lat = 85, pos_lon = 11\<rparr> 25 \<lparr>futWeather = None, launched = []\<rparr> =
     (False, \<lparr>futWeather = None, launched = []\<rparr>)"
  by (rule WeatherUpdate_latitude_gate) simp

text \<open>
  C2 as stated gates on the absolute value. The code compares the latitude itself:
  at latitude \<open>-85\<close>, with no fetch in flight, a worker is launched.
\<close>

theorem WeatherUpdate_southern_latitude:
  "\<bar>pos_lat \<lparr>pos_lat = - 85, pos_lon = 11\<rparr>\<bar> \<ge> 80 \<and>
   WeatherUpdate \<lparr>pos_lat = - 85, pos_lon = 11\<rparr> 25 \<lparr>futWeather = None, launched = []\<rparr> =
     (True,
      \<lparr>futWeather = Some \<lparr>fut_task = \<lparr>t_lat = - 85, t_lon = 11, t_radius_nm = 25\<rparr>,
                            fut_status = timeout\<rparr>,
        launched = [\<lparr>t_lat = - 85, t_lon = 11, t_radius_nm = 25\<rparr>]\<rparr>)"
  by (simp add: WeatherUpdate_def in_flight_def Let_def)

end
